theory Spec2Isabelle
  imports Main "HOL-Library.Word" "HOL-Library.Char_ord" "HOL-Library.List_Lexorder"
begin

unbundle bit_operations_syntax

section \<open>The MQDB (.ff) reader \<^verbatim>\<open>FfReader\<close>\<close>

text \<open>
  A shallow embedding of \<^verbatim>\<open>FfReader.hpp\<close> and of its implementation file.
  Bytes are \<^typ>\<open>char\<close> (the source reads into \<^verbatim>\<open>char\<close> buffers), a
  \<^verbatim>\<open>std::string\<close> is a \<^typ>\<open>string\<close>, a \<^verbatim>\<open>uint32_t\<close> is a
  \<^typ>\<open>32 word\<close>, and \<^verbatim>\<open>size_t\<close> offsets are \<^typ>\<open>nat\<close> (a 64-bit
  \<^verbatim>\<open>size_t\<close> does not wrap on the sums the code forms from 32-bit fields).
  Structures are read from the file by \<^verbatim>\<open>reinterpret_cast\<close>; the layout is
  little-endian.
\<close>

type_synonym uint32_t = "32 word"
type_synonym RecordId = uint32_t

subsection \<open>Outcomes of a call\<close>

text \<open>
  A call returns, throws \<^verbatim>\<open>std::runtime_error\<close> with a message, or has undefined
  behaviour: it reads past the end of a buffer, or uses a field of a structure that a
  short \<^verbatim>\<open>file.read\<close> left uninitialised.
\<close>

datatype 'a outcome = Returned 'a | Threw string | Undefined

fun and_then :: "'a outcome \<Rightarrow> ('a \<Rightarrow> 'b outcome) \<Rightarrow> 'b outcome" where
  "and_then (Returned x) k = k x"
| "and_then (Threw msg) k = Threw msg"
| "and_then Undefined k = Undefined"

subsection \<open>Constants\<close>

definition FFSIGNATURE :: "char \<Rightarrow> char \<Rightarrow> char \<Rightarrow> char \<Rightarrow> uint32_t" where
  "FFSIGNATURE a b c d =
     (push_bit 24 (of_char d) OR push_bit 16 (of_char c) OR push_bit 8 (of_char b) OR of_char a)"

definition mqdbFileSignature :: uint32_t where
  "mqdbFileSignature = FFSIGNATURE CHR ''M'' CHR ''Q'' CHR ''D'' CHR ''B''"

definition mqdbFileVersion :: uint32_t where
  "mqdbFileVersion = 9"

definition mqrcSignature :: uint32_t where
  "mqrcSignature = FFSIGNATURE CHR ''M'' CHR ''Q'' CHR ''R'' CHR ''C''"

definition indexOptRecordName :: string where
  "indexOptRecordName = ''-INDEX.OPT''"

definition imagesOptRecordName :: string where
  "imagesOptRecordName = ''-IMAGES.OPT''"

definition paletteSize :: nat where
  "paletteSize = 11 + 1024"

text \<open>\<^verbatim>\<open>enum SpecialId { NameList = 2 }\<close>\<close>

definition NameList :: RecordId where
  "NameList = 2"

text \<open>\<^verbatim>\<open>sizeof(MqdbHeader)\<close>, \<^verbatim>\<open>sizeof(TocRecord)\<close>, \<^verbatim>\<open>sizeof(MqrcHeader)\<close>,
  as the constructor asserts them.\<close>

definition sizeof_MqdbHeader :: nat where "sizeof_MqdbHeader = 24"
definition sizeof_TocRecord :: nat where "sizeof_TocRecord = 16"
definition sizeof_MqrcHeader :: nat where "sizeof_MqrcHeader = 28"

subsection \<open>Bytes and 32-bit values\<close>

text \<open>
  The little-endian value of at most four bytes. Fewer than four bytes leave the missing
  high bytes zero: this is what \<^verbatim>\<open>readUint32(std::ifstream&)\<close> returns after a
  short read, since it initialises \<^verbatim>\<open>value\<close> to 0.
\<close>

fun uint32_of_bytes :: "char list \<Rightarrow> uint32_t" where
  "uint32_of_bytes [] = 0"
| "uint32_of_bytes (b # bs) = of_char b + 256 * uint32_of_bytes bs"

text \<open>
  The 32-bit field at byte offset \<open>k\<close> of a structure of which only the bytes \<open>got\<close>
  were read: \<open>None\<close> when the field is not wholly initialised.
\<close>

definition field32 :: "nat \<Rightarrow> char list \<Rightarrow> uint32_t option" where
  "field32 k got =
     (if k + 4 \<le> length got then Some (uint32_of_bytes (take 4 (drop k got))) else None)"

subsection \<open>The file stream\<close>

text \<open>
  A \<^verbatim>\<open>std::ifstream\<close> opened in binary mode: the bytes of the file, the get
  position and the failure state. A read that meets the end of the file delivers the bytes
  that are there and sets \<^verbatim>\<open>failbit\<close>; on a failed stream \<^verbatim>\<open>read\<close> and
  \<^verbatim>\<open>seekg\<close> do nothing and \<^verbatim>\<open>tellg\<close> returns -1 (\<open>None\<close>). The code never
  clears the state. A seek past the end of the file leaves the stream good; the read that
  follows finds no byte there.
\<close>

record ifstream =
  fileBytes :: "char list"
  gpos :: nat
  failbit :: bool

definition open_file :: "char list \<Rightarrow> ifstream" where
  "open_file bytes = \<lparr>fileBytes = bytes, gpos = 0, failbit = False\<rparr>"

definition stream_read :: "nat \<Rightarrow> ifstream \<Rightarrow> char list \<times> ifstream" where
  "stream_read n file =
     (if failbit file then ([], file)
      else let got = take n (drop (gpos file) (fileBytes file))
           in (got, file\<lparr>gpos := gpos file + length got, failbit := length got < n\<rparr>))"

definition seekg :: "nat \<Rightarrow> ifstream \<Rightarrow> ifstream" where
  "seekg p file = (if failbit file then file else file\<lparr>gpos := p\<rparr>)"

definition tellg :: "ifstream \<Rightarrow> nat option" where
  "tellg file = (if failbit file then None else Some (gpos file))"

text \<open>\<^verbatim>\<open>file.seekg(readPosition, std::ios_base::beg)\<close> with a position that
  \<^verbatim>\<open>tellg\<close> returned.\<close>

definition seekg_pos :: "nat option \<Rightarrow> ifstream \<Rightarrow> ifstream" where
  "seekg_pos p file =
     (case p of None \<Rightarrow> file\<lparr>failbit := True\<rparr> | Some q \<Rightarrow> seekg q file)"

text \<open>\<^verbatim>\<open>readUint32(std::ifstream&)\<close>\<close>

definition readUint32_file :: "ifstream \<Rightarrow> uint32_t \<times> ifstream" where
  "readUint32_file file = (let (got, file') = stream_read 4 file in (uint32_of_bytes got, file'))"

subsection \<open>Reading from a buffer\<close>

text \<open>
  \<^verbatim>\<open>readUint32(const char*, size_t&)\<close> checks nothing: a read that is not wholly
  inside the buffer is undefined behaviour.
\<close>

definition readUint32 :: "char list \<Rightarrow> nat \<Rightarrow> (uint32_t \<times> nat) outcome" where
  "readUint32 contents byteOffset =
     (if byteOffset + 4 \<le> length contents
      then Returned (uint32_of_bytes (take 4 (drop byteOffset contents)), byteOffset + 4)
      else Undefined)"

text \<open>
  The C string at \<open>byteOffset\<close>: \<^verbatim>\<open>strlen\<close> scans for the terminator, and runs
  out of the buffer when there is none.
\<close>

definition c_string_at :: "char list \<Rightarrow> nat \<Rightarrow> string outcome" where
  "c_string_at contents byteOffset =
     (let rest = drop byteOffset contents
      in if CHR 0x00 \<in> set rest then Returned (takeWhile (\<lambda>c. c \<noteq> CHR 0x00) rest)
         else Undefined)"

text \<open>\<^verbatim>\<open>std::vector<char> contents(n, '\0'); file.read(&contents[0], n);\<close>\<close>

definition read_contents :: "nat \<Rightarrow> ifstream \<Rightarrow> char list \<times> ifstream" where
  "read_contents n file =
     (let (got, file') = stream_read n file
      in (got @ replicate (n - length got) (CHR 0x00), file'))"

subsection \<open>\<^verbatim>\<open>std::map\<close>\<close>

text \<open>
  A \<^verbatim>\<open>std::map\<close> is kept as the list of its pairs in iteration order, that is in
  ascending key order; \<^verbatim>\<open>find\<close> is \<^const>\<open>map_of\<close> and \<open>map_assign\<close> is
  \<^verbatim>\<open>m[k] = v\<close>.
\<close>

fun map_assign :: "'k::linorder \<Rightarrow> 'v \<Rightarrow> ('k \<times> 'v) list \<Rightarrow> ('k \<times> 'v) list" where
  "map_assign k v [] = [(k, v)]"
| "map_assign k v ((k', v') # m) =
     (if k < k' then (k, v) # (k', v') # m
      else if k = k' then (k, v) # m
      else (k', v') # map_assign k v m)"

subsection \<open>The structures of \<^verbatim>\<open>FfReader.hpp\<close>\<close>

text \<open>
  Field names are those of the header, but for \<^verbatim>\<open>TocRecord::size\<close> and
  \<^verbatim>\<open>TocRecord::offset\<close> (\<open>rec_size\<close>, \<open>rec_offset\<close>), the name, width and height
  of an \<^verbatim>\<open>ImageFrame\<close> (\<open>frameName\<close>, \<open>frameWidth\<close>, \<open>frameHeight\<close>) and the
  two arrays of \<^verbatim>\<open>AnimationIndices\<close> (\<open>anim_names\<close>, \<open>anim_packedInfo\<close>): a field
  name can be used once in a theory, and \<open>size\<close> is taken.
\<close>

record TocRecord =
  recordId :: RecordId
  rec_size :: uint32_t
  sizeAllocated :: uint32_t
  rec_offset :: uint32_t

record ImagePart =
  sourceX :: uint32_t
  sourceY :: uint32_t
  targetX :: uint32_t
  targetY :: uint32_t
  width :: uint32_t
  height :: uint32_t

record ImageFrame =
  parts :: "ImagePart list"
  frameName :: string
  frameWidth :: uint32_t
  frameHeight :: uint32_t

record PackedImage =
  palette :: "char list"
  frames :: "ImageFrame list"

type_synonym PackedImageInfo = "uint32_t \<times> uint32_t"

record ImageIndices =
  ids :: "RecordId list"
  names :: "string list"
  packedInfo :: "PackedImageInfo list"

record AnimationIndices =
  anim_names :: "string list"
  anim_packedInfo :: "PackedImageInfo list"

record IndexData =
  images :: ImageIndices
  animations :: AnimationIndices

record FfReader =
  tableOfContents :: "(RecordId \<times> TocRecord) list"
  recordNames :: "(string \<times> RecordId) list"
  indexData :: IndexData
  packedImages :: "(uint32_t \<times> PackedImage) list"
  ffFilePath :: string

text \<open>The members as the constructor finds them: empty containers and the path.\<close>

definition FfReader_members :: "string \<Rightarrow> FfReader" where
  "FfReader_members path =
     \<lparr>tableOfContents = [], recordNames = [],
      indexData = \<lparr>images = \<lparr>ids = [], names = [], packedInfo = []\<rparr>,
                   animations = \<lparr>anim_names = [], anim_packedInfo = []\<rparr>\<rparr>,
      packedImages = [], ffFilePath = path\<rparr>"

subsection \<open>Lookups\<close>

definition findTocRecord :: "FfReader \<Rightarrow> RecordId \<Rightarrow> TocRecord option" where
  "findTocRecord r rid = map_of (tableOfContents r) rid"

definition findTocRecord_name :: "FfReader \<Rightarrow> string \<Rightarrow> TocRecord option" where
  "findTocRecord_name r recordName =
     (case map_of (recordNames r) recordName of
        None \<Rightarrow> None
      | Some rid \<Rightarrow> findTocRecord r rid)"

definition getNames :: "FfReader \<Rightarrow> string list" where
  "getNames r = map fst (recordNames r)"

subsection \<open>\<^verbatim>\<open>checkFileHeader\<close>\<close>

text \<open>
  \<^verbatim>\<open>MqdbHeader header\<close> is not initialised: \<open>signature\<close> is at byte 0 and
  \<open>version\<close> at byte 8 of what the read delivered.
\<close>

definition checkFileHeader :: "ifstream \<Rightarrow> ifstream outcome" where
  "checkFileHeader file =
     (let (header, file') = stream_read sizeof_MqdbHeader file
      in case field32 0 header of
           None \<Rightarrow> Undefined
         | Some signature \<Rightarrow>
             if signature \<noteq> mqdbFileSignature then Threw ''Not a MQDB file''
             else (case field32 8 header of
                     None \<Rightarrow> Undefined
                   | Some version \<Rightarrow>
                       if version \<noteq> mqdbFileVersion then Threw ''Wrong MQDB file version''
                       else Returned file'))"

subsection \<open>\<^verbatim>\<open>readTableOfContents\<close>\<close>

definition TocRecord_of_bytes :: "char list \<Rightarrow> TocRecord" where
  "TocRecord_of_bytes bs =
     \<lparr>recordId = uint32_of_bytes (take 4 bs),
      rec_size = uint32_of_bytes (take 4 (drop 4 bs)),
      sizeAllocated = uint32_of_bytes (take 4 (drop 8 bs)),
      rec_offset = uint32_of_bytes (take 4 (drop 12 bs))\<rparr>"

text \<open>
  The \<^verbatim>\<open>for\<close> loop, by the number of iterations left. The record is stored whole,
  so a short read of it is a use of uninitialised fields.
\<close>

fun readTableOfContents_loop ::
  "nat \<Rightarrow> (RecordId \<times> TocRecord) list \<Rightarrow> ifstream
     \<Rightarrow> ((RecordId \<times> TocRecord) list \<times> ifstream) outcome" where
  "readTableOfContents_loop 0 toc file = Returned (toc, file)"
| "readTableOfContents_loop (Suc n) toc file =
     (let (record, file') = stream_read sizeof_TocRecord file
      in case field32 0 record of
           None \<Rightarrow> Undefined
         | Some rid \<Rightarrow>
             if map_of toc rid \<noteq> None
             then Threw ''MQDB ToC contains records with non-unique ids''
             else if length record < sizeof_TocRecord then Undefined
             else readTableOfContents_loop n
                    (map_assign rid (TocRecord_of_bytes record) toc) file')"

definition readTableOfContents :: "FfReader \<Rightarrow> ifstream \<Rightarrow> (FfReader \<times> ifstream) outcome" where
  "readTableOfContents r file =
     (let (tocOffset, file1) = readUint32_file file;
          file2 = seekg (unat tocOffset) file1;
          (entriesTotal, file3) = readUint32_file file2
      in and_then (readTableOfContents_loop (unat entriesTotal) (tableOfContents r) file3)
           (\<lambda>(toc, file4). Returned (r\<lparr>tableOfContents := toc\<rparr>, file4)))"

subsection \<open>\<^verbatim>\<open>readNameList\<close>\<close>

text \<open>
  \<^verbatim>\<open>char name[256]; file.read(name, sizeof(name)); name[255] = '\0';\<close> and then
  \<^verbatim>\<open>std::string nameString = name\<close>: the bytes before the first terminator among
  the first 255. \<open>None\<close> when the scan meets a byte that a short read left
  uninitialised.
\<close>

definition nameString_of :: "char list \<Rightarrow> string option" where
  "nameString_of got =
     (let name = take 255 got
      in if CHR 0x00 \<in> set name then Some (takeWhile (\<lambda>c. c \<noteq> CHR 0x00) name)
         else if 255 \<le> length got then Some name
         else None)"

fun readNameList_loop ::
  "nat \<Rightarrow> (RecordId \<times> TocRecord) list \<Rightarrow> (string \<times> RecordId) list \<Rightarrow> ifstream
     \<Rightarrow> ((string \<times> RecordId) list \<times> ifstream) outcome" where
  "readNameList_loop 0 toc recNames file = Returned (recNames, file)"
| "readNameList_loop (Suc n) toc recNames file =
     (let (name, file1) = stream_read 256 file;
          (rid, file2) = readUint32_file file1
      in case map_of toc rid of
           None \<Rightarrow> readNameList_loop n toc recNames file2
         | Some tocRecord \<Rightarrow>
             (let readPosition = tellg file2;
                  file3 = seekg (unat (rec_offset tocRecord)) file2;
                  (recordHeader, file4) = stream_read sizeof_MqrcHeader file3
              in case field32 0 recordHeader of
                   None \<Rightarrow> Undefined
                 | Some signature \<Rightarrow>
                     if signature \<noteq> mqrcSignature
                     then Threw ''Read wrong MQRC signature while processing names list''
                     else
                       (let file5 = seekg_pos readPosition file4
                        in case field32 20 recordHeader of
                             None \<Rightarrow> Undefined
                           | Some used \<Rightarrow>
                               if used = 0 then readNameList_loop n toc recNames file5
                               else
                                 (case nameString_of name of
                                    None \<Rightarrow> Undefined
                                  | Some nameString \<Rightarrow>
                                      if map_of recNames nameString \<noteq> None
                                      then readNameList_loop n toc recNames file5
                                      else readNameList_loop n toc
                                             (map_assign nameString rid recNames) file5))))"

definition readNameList :: "FfReader \<Rightarrow> ifstream \<Rightarrow> (FfReader \<times> ifstream) outcome" where
  "readNameList r file =
     (case findTocRecord r NameList of
        None \<Rightarrow> Threw ''Could not find MQDB names list ToC record''
      | Some namesList \<Rightarrow>
          (let file1 = seekg (unat (rec_offset namesList) + sizeof_MqrcHeader) file;
               (namesTotal, file2) = readUint32_file file1
           in and_then
                (readNameList_loop (unat namesTotal) (tableOfContents r) (recordNames r) file2)
                (\<lambda>(recNames, file3). Returned (r\<lparr>recordNames := recNames\<rparr>, file3))))"

subsection \<open>\<^verbatim>\<open>readIndex\<close>\<close>

text \<open>
  In the loop body \<^verbatim>\<open>ImageIndices images = indexData.images;\<close> and
  \<^verbatim>\<open>AnimationIndices animations = indexData.animations;\<close> declare objects, not
  references: the three (two) \<^verbatim>\<open>push_back\<close> calls fill a copy that ends with the
  iteration, and the member \<^verbatim>\<open>indexData\<close> is what it was.
\<close>

fun readIndex_loop ::
  "nat \<Rightarrow> char list \<Rightarrow> nat \<Rightarrow> IndexData \<Rightarrow> (nat \<times> IndexData) outcome" where
  "readIndex_loop 0 contents byteOffset indexData_m = Returned (byteOffset, indexData_m)"
| "readIndex_loop (Suc n) contents byteOffset indexData_m =
     and_then (readUint32 contents byteOffset) (\<lambda>(id, byteOffset).
     and_then (c_string_at contents byteOffset) (\<lambda>name.
       let nameLength = length name + 1;
           byteOffset = byteOffset + nameLength
       in
     and_then (readUint32 contents byteOffset) (\<lambda>(offset, byteOffset).
     and_then (readUint32 contents byteOffset) (\<lambda>(size, byteOffset).
       let entryName = name
       in if id \<noteq> - 1
          then
            (let images_v = images indexData_m;
                 images_v = images_v\<lparr>ids := ids images_v @ [id]\<rparr>;
                 images_v = images_v\<lparr>names := names images_v @ [entryName]\<rparr>;
                 images_v = images_v\<lparr>packedInfo := packedInfo images_v @ [(offset, size)]\<rparr>
             in readIndex_loop n contents byteOffset indexData_m)
          else
            (let animations_v = animations indexData_m;
                 animations_v = animations_v\<lparr>anim_names := anim_names animations_v @ [entryName]\<rparr>;
                 animations_v = animations_v
                   \<lparr>anim_packedInfo := anim_packedInfo animations_v @ [(offset, size)]\<rparr>
             in readIndex_loop n contents byteOffset indexData_m)))))"

definition readIndex :: "FfReader \<Rightarrow> ifstream \<Rightarrow> (FfReader \<times> ifstream) outcome" where
  "readIndex r file =
     (case findTocRecord_name r indexOptRecordName of
        None \<Rightarrow> Returned (r, file)
      | Some record \<Rightarrow>
          (let file1 = seekg (unat (rec_offset record) + sizeof_MqrcHeader) file;
               (contents, file2) = read_contents (unat (rec_size record)) file1
           in and_then (readUint32 contents 0) (\<lambda>(total, byteOffset).
              and_then (readIndex_loop (unat total) contents byteOffset (indexData r))
                (\<lambda>(byteOffset, indexData_m). Returned (r\<lparr>indexData := indexData_m\<rparr>, file2)))))"

subsection \<open>\<^verbatim>\<open>readImages\<close>\<close>

text \<open>
  The function has no \<^verbatim>\<open>throw\<close> of its own. Memory is taken to be available: a
  failing allocation in \<^verbatim>\<open>reserve\<close>, \<^verbatim>\<open>push_back\<close> or the buffer's
  constructor is not part of the model.
\<close>

text \<open>\<^verbatim>\<open>packedImage.palette.assign(&contentsPtr[byteOffset],
  &contentsPtr[byteOffset + paletteSize]); byteOffset += paletteSize;\<close>\<close>

definition read_palette :: "char list \<Rightarrow> nat \<Rightarrow> (char list \<times> nat) outcome" where
  "read_palette contents byteOffset =
     (if byteOffset + paletteSize \<le> length contents
      then Returned (take paletteSize (drop byteOffset contents), byteOffset + paletteSize)
      else Undefined)"

text \<open>The loop over the parts of a frame, by the number of iterations left.\<close>

fun readImages_parts ::
  "nat \<Rightarrow> char list \<Rightarrow> nat \<Rightarrow> ImageFrame \<Rightarrow> (nat \<times> ImageFrame) outcome" where
  "readImages_parts 0 contents byteOffset frame = Returned (byteOffset, frame)"
| "readImages_parts (Suc n) contents byteOffset frame =
     and_then (readUint32 contents byteOffset) (\<lambda>(sourceX_v, byteOffset).
     and_then (readUint32 contents byteOffset) (\<lambda>(sourceY_v, byteOffset).
     and_then (readUint32 contents byteOffset) (\<lambda>(targetX_v, byteOffset).
     and_then (readUint32 contents byteOffset) (\<lambda>(targetY_v, byteOffset).
     and_then (readUint32 contents byteOffset) (\<lambda>(partWidth, byteOffset).
     and_then (readUint32 contents byteOffset) (\<lambda>(partHeight, byteOffset).
       let part = \<lparr>sourceX = sourceX_v, sourceY = sourceY_v,
                   targetX = targetX_v, targetY = targetY_v,
                   width = partWidth, height = partHeight\<rparr>
       in readImages_parts n contents byteOffset (frame\<lparr>parts := parts frame @ [part]\<rparr>)))))))"

text \<open>The loop over the frames of a packed image.\<close>

fun readImages_frames ::
  "nat \<Rightarrow> char list \<Rightarrow> nat \<Rightarrow> PackedImage \<Rightarrow> (nat \<times> PackedImage) outcome" where
  "readImages_frames 0 contents byteOffset packedImage = Returned (byteOffset, packedImage)"
| "readImages_frames (Suc n) contents byteOffset packedImage =
     and_then (c_string_at contents byteOffset) (\<lambda>frameName_v.
       let nameLength = length frameName_v + 1;
           byteOffset = byteOffset + nameLength
       in
     and_then (readUint32 contents byteOffset) (\<lambda>(partsTotal, byteOffset).
     and_then (readUint32 contents byteOffset) (\<lambda>(frameWidth_v, byteOffset).
     and_then (readUint32 contents byteOffset) (\<lambda>(frameHeight_v, byteOffset).
       let frame = \<lparr>parts = [], frameName = frameName_v,
                    frameWidth = frameWidth_v, frameHeight = frameHeight_v\<rparr>
       in
     and_then (readImages_parts (unat partsTotal) contents byteOffset frame)
       (\<lambda>(byteOffset, frame).
          readImages_frames n contents byteOffset
            (packedImage\<lparr>frames := frames packedImage @ [frame]\<rparr>))))))"

text \<open>One iteration of the \<^verbatim>\<open>while\<close> loop, up to the insertion into the map.\<close>

definition readImages_image :: "char list \<Rightarrow> nat \<Rightarrow> (nat \<times> PackedImage) outcome" where
  "readImages_image contents byteOffset =
     and_then (read_palette contents byteOffset) (\<lambda>(palette_v, byteOffset).
     and_then (readUint32 contents byteOffset) (\<lambda>(framesTotal, byteOffset).
       readImages_frames (unat framesTotal) contents byteOffset
         \<lparr>palette = palette_v, frames = []\<rparr>))"

lemma and_then_Returned:
  "and_then m k = Returned y \<longleftrightarrow> (\<exists>x. m = Returned x \<and> k x = Returned y)"
  by (cases m) simp_all

lemma readUint32_Returned:
  "readUint32 contents byteOffset = Returned (v, byteOffset') \<Longrightarrow>
     byteOffset' = byteOffset + 4 \<and> byteOffset' \<le> length contents"
  by (auto simp: readUint32_def split: if_splits)

lemma readImages_parts_Returned:
  "readImages_parts n contents byteOffset frame = Returned (byteOffset', frame') \<Longrightarrow>
     byteOffset \<le> byteOffset' \<and> (byteOffset \<le> length contents \<longrightarrow> byteOffset' \<le> length contents)"
proof (induction n arbitrary: byteOffset frame)
  case 0
  then show ?case by simp
next
  case (Suc n)
  from Suc.prems obtain b6 fr where
    rec: "readImages_parts n contents b6 fr = Returned (byteOffset', frame')"
    and b6: "byteOffset \<le> b6" "b6 \<le> length contents"
    by (auto simp: and_then_Returned dest!: readUint32_Returned)
  from Suc.IH [OF rec] b6 show ?case by auto
qed

lemma readImages_frames_Returned:
  "readImages_frames n contents byteOffset packedImage = Returned (byteOffset', packedImage') \<Longrightarrow>
     byteOffset \<le> byteOffset' \<and> (byteOffset \<le> length contents \<longrightarrow> byteOffset' \<le> length contents)"
proof (induction n arbitrary: byteOffset packedImage)
  case 0
  then show ?case by simp
next
  case (Suc n)
  from Suc.prems obtain b3 b4 fr pk k where
    parts: "readImages_parts k contents b3 fr = Returned (b4, pk)"
    and rec: "readImages_frames n contents b4 (packedImage\<lparr>frames := frames packedImage @ [pk]\<rparr>)
                = Returned (byteOffset', packedImage')"
    and b3: "byteOffset \<le> b3" "b3 \<le> length contents"
    by (auto simp: and_then_Returned Let_def dest!: readUint32_Returned)
  from readImages_parts_Returned [OF parts] b3
  have b4: "byteOffset \<le> b4" "b4 \<le> length contents" by auto
  from Suc.IH [OF rec] b4 show ?case by auto
qed

lemma readImages_image_Returned:
  assumes "readImages_image contents byteOffset = Returned (byteOffset', packedImage)"
  shows "byteOffset + 1039 \<le> byteOffset'" and "byteOffset' \<le> length contents"
proof -
  from assms have "\<exists>pal k b2.
      readImages_frames k contents b2 \<lparr>palette = pal, frames = []\<rparr>
        = Returned (byteOffset', packedImage)
      \<and> b2 = byteOffset + 1039 \<and> b2 \<le> length contents"
    by (auto simp: readImages_image_def and_then_Returned read_palette_def paletteSize_def
             readUint32_def add.commute split: if_splits)
  then obtain pal k b2 where
    fr: "readImages_frames k contents b2 \<lparr>palette = pal, frames = []\<rparr>
           = Returned (byteOffset', packedImage)"
    and le: "b2 = byteOffset + 1039" "b2 \<le> length contents"
    by blast
  from readImages_frames_Returned [OF fr] le
  show "byteOffset + 1039 \<le> byteOffset'" and "byteOffset' \<le> length contents" by auto
qed

text \<open>
  The \<^verbatim>\<open>while (byteOffset < recordSize)\<close> loop. Its state is the running offset and
  the member \<^verbatim>\<open>packedImages\<close>; the key of an image is the offset cast to 32 bits.
\<close>

function readImages_loop ::
  "char list \<Rightarrow> nat \<Rightarrow> nat \<Rightarrow> (uint32_t \<times> PackedImage) list
     \<Rightarrow> (nat \<times> (uint32_t \<times> PackedImage) list) outcome" where
  "readImages_loop contents recordSize byteOffset packedImages_m =
     (if byteOffset < recordSize
      then
        (let offset = (of_nat byteOffset :: uint32_t)
         in case readImages_image contents byteOffset of
              Returned (byteOffset', packedImage) \<Rightarrow>
                readImages_loop contents recordSize byteOffset'
                  (map_assign offset packedImage packedImages_m)
            | Threw msg \<Rightarrow> Threw msg
            | Undefined \<Rightarrow> Undefined)
      else Returned (byteOffset, packedImages_m))"
  by pat_completeness auto
termination
proof (relation "measure (\<lambda>(contents, recordSize, byteOffset, m). recordSize - byteOffset)")
  show "wf (measure (\<lambda>(contents, recordSize, byteOffset, m). recordSize - byteOffset))"
    by simp
next
  fix contents :: "char list" and recordSize byteOffset :: nat
    and packedImages_m :: "(uint32_t \<times> PackedImage) list"
    and offset :: uint32_t and x1 :: "nat \<times> PackedImage" and byteOffset' packedImage
  assume "byteOffset < recordSize"
    and "readImages_image contents byteOffset = Returned x1"
    and "(byteOffset', packedImage) = x1"
  then have "byteOffset + 1039 \<le> byteOffset'"
    using readImages_image_Returned(1) [of contents byteOffset byteOffset' packedImage] by simp
  with \<open>byteOffset < recordSize\<close>
  show "((contents, recordSize, byteOffset', map_assign offset packedImage packedImages_m),
         contents, recordSize, byteOffset, packedImages_m)
        \<in> measure (\<lambda>(contents, recordSize, byteOffset, m). recordSize - byteOffset)"
    by simp
qed

text \<open>
  \<^verbatim>\<open>off\<close> is a \<^verbatim>\<open>uint32_t\<close>: the sum of the offset and the header size is cut
  to 32 bits. The buffer has the declared size whatever the file delivers.
\<close>

definition readImages :: "FfReader \<Rightarrow> ifstream \<Rightarrow> (FfReader \<times> ifstream) outcome" where
  "readImages r file =
     (case findTocRecord_name r imagesOptRecordName of
        None \<Rightarrow> Returned (r, file)
      | Some record \<Rightarrow>
          (let off = rec_offset record + of_nat sizeof_MqrcHeader;
               file1 = seekg (unat off) file;
               recordSize = rec_size record;
               (contents, file2) = read_contents (unat recordSize) file1
           in and_then (readImages_loop contents (unat recordSize) 0 (packedImages r))
                (\<lambda>(byteOffset, packedImages_m).
                   Returned (r\<lparr>packedImages := packedImages_m\<rparr>, file2))))"

subsection \<open>\<^verbatim>\<open>getRecordData\<close>\<close>

text \<open>
  The file is opened anew by its path; \<open>fs\<close> is the file system, \<open>None\<close> where the
  file cannot be opened. The result is the \<^verbatim>\<open>bool\<close> and the caller's vector.
  \<^verbatim>\<open>data.resize(record.size)\<close> keeps the elements that were there and fills with
  zeros, and \<^verbatim>\<open>file.read\<close> overwrites as many bytes as the file delivers; its
  result is not looked at.
\<close>

definition vector_resize :: "nat \<Rightarrow> char list \<Rightarrow> char list" where
  "vector_resize n xs = take n xs @ replicate (n - length xs) (CHR 0x00)"

definition getRecordData_record ::
  "(string \<Rightarrow> char list option) \<Rightarrow> FfReader \<Rightarrow> TocRecord \<Rightarrow> char list \<Rightarrow> bool \<times> char list" where
  "getRecordData_record fs r record data =
     (case fs (ffFilePath r) of
        None \<Rightarrow> (False, data)
      | Some bytes \<Rightarrow>
          (let file = open_file bytes;
               file = seekg (unat (rec_offset record) + sizeof_MqrcHeader) file;
               data = vector_resize (unat (rec_size record)) data;
               (got, file) = stream_read (unat (rec_size record)) file
           in (True, got @ drop (length got) data)))"

definition getRecordData_name ::
  "(string \<Rightarrow> char list option) \<Rightarrow> FfReader \<Rightarrow> string \<Rightarrow> char list \<Rightarrow> bool \<times> char list" where
  "getRecordData_name fs r recordName data =
     (case findTocRecord_name r recordName of
        None \<Rightarrow> (False, data)
      | Some record \<Rightarrow> getRecordData_record fs r record data)"

definition getRecordData_id ::
  "(string \<Rightarrow> char list option) \<Rightarrow> FfReader \<Rightarrow> RecordId \<Rightarrow> char list \<Rightarrow> bool \<times> char list" where
  "getRecordData_id fs r rid data =
     (case findTocRecord r rid of
        None \<Rightarrow> (False, data)
      | Some record \<Rightarrow> getRecordData_record fs r record data)"

subsection \<open>The constructor\<close>

definition FfReader_ctor ::
  "(string \<Rightarrow> char list option) \<Rightarrow> string \<Rightarrow> bool \<Rightarrow> FfReader outcome" where
  "FfReader_ctor fs path readImageData =
     (case fs path of
        None \<Rightarrow> Threw ''Could not open MQDB file''
      | Some bytes \<Rightarrow>
          and_then (checkFileHeader (open_file bytes)) (\<lambda>file.
          and_then (readTableOfContents (FfReader_members path) file) (\<lambda>(r, file).
          and_then (readNameList r file) (\<lambda>(r, file).
          and_then (readIndex r file) (\<lambda>(r, file).
            if readImageData
            then and_then (readImages r file) (\<lambda>(r, file). Returned r)
            else Returned r)))))"

section \<open>The container as the file lays it out\<close>

text \<open>
  The structures that the claims speak of, read off the bytes of the file by position:
  the table of contents and the name list. They are what the decoder is compared with.
\<close>

subsection \<open>The table of contents\<close>

text \<open>
  The 32-bit value after the 24-byte header is the position of the table: a 32-bit count,
  then that many 16-byte entries.
\<close>

fun tocEntries :: "char list \<Rightarrow> nat \<Rightarrow> nat \<Rightarrow> TocRecord list" where
  "tocEntries bytes a 0 = []"
| "tocEntries bytes a (Suc n) =
     TocRecord_of_bytes (take sizeof_TocRecord (drop a bytes))
       # tocEntries bytes (a + sizeof_TocRecord) n"

definition toc_position :: "char list \<Rightarrow> nat" where
  "toc_position bytes = unat (uint32_of_bytes (take 4 (drop sizeof_MqdbHeader bytes)))"

definition toc_count :: "char list \<Rightarrow> nat" where
  "toc_count bytes = unat (uint32_of_bytes (take 4 (drop (toc_position bytes) bytes)))"

definition toc_of_file :: "char list \<Rightarrow> TocRecord list" where
  "toc_of_file bytes = tocEntries bytes (toc_position bytes + 4) (toc_count bytes)"

definition toc_pairs :: "TocRecord list \<Rightarrow> (RecordId \<times> TocRecord) list" where
  "toc_pairs es = map (\<lambda>e. (recordId e, e)) es"

subsection \<open>The name list\<close>







subsection \<open>The decode loop with a bound on its iterations\<close>

text \<open>
  The \<^verbatim>\<open>while\<close> loop of \<^verbatim>\<open>readImages\<close> again, allowed at most \<open>k\<close> iterations:
  \<open>None\<close> when the loop condition still holds after them.
\<close>

fun readImages_fuel ::
  "nat \<Rightarrow> char list \<Rightarrow> nat \<Rightarrow> nat \<Rightarrow> (uint32_t \<times> PackedImage) list
     \<Rightarrow> (nat \<times> (uint32_t \<times> PackedImage) list) outcome option" where
  "readImages_fuel 0 contents recordSize byteOffset packedImages_m =
     (if byteOffset < recordSize then None else Some (Returned (byteOffset, packedImages_m)))"
| "readImages_fuel (Suc k) contents recordSize byteOffset packedImages_m =
     (if byteOffset < recordSize
      then
        (case readImages_image contents byteOffset of
           Returned (byteOffset', packedImage) \<Rightarrow>
             readImages_fuel k contents recordSize byteOffset'
               (map_assign (of_nat byteOffset) packedImage packedImages_m)
         | Threw msg \<Rightarrow> Some (Threw msg)
         | Undefined \<Rightarrow> Some Undefined)
      else Some (Returned (byteOffset, packedImages_m)))"

section \<open>Sample containers\<close>

text \<open>
  Containers written out byte by byte, on which the theorems below are instantiated.
  \<open>u32le\<close> is the little-endian encoding of a 32-bit value.
\<close>

definition u32le :: "uint32_t \<Rightarrow> char list" where
  "u32le w = [char_of (unat w), char_of (unat w div 256), char_of (unat w div 65536),
              char_of (unat w div 16777216)]"

definition toc_entry :: "uint32_t \<Rightarrow> uint32_t \<Rightarrow> uint32_t \<Rightarrow> char list" where
  "toc_entry rid sz off = u32le rid @ u32le sz @ u32le sz @ u32le off"

definition mqrc_header :: "uint32_t \<Rightarrow> uint32_t \<Rightarrow> uint32_t \<Rightarrow> char list" where
  "mqrc_header rid sz used =
     ''MQRC'' @ u32le 0 @ u32le rid @ u32le sz @ u32le sz @ u32le used @ u32le 0"

definition name_slot :: "string \<Rightarrow> uint32_t \<Rightarrow> char list" where
  "name_slot nm rid = nm @ replicate (256 - length nm) (CHR 0x00) @ u32le rid"

definition mqdb_header :: "char list" where
  "mqdb_header = ''MQDB'' @ u32le 0 @ u32le 9 @ replicate 12 (CHR 0x00)"

text \<open>
  A packed image of one frame \<open>f\<close>, 4 by 3, with one part: 1077 bytes.
\<close>

definition sample_images :: "char list" where
  "sample_images =
     replicate 1035 (CHR 0x00) @ u32le 1
     @ ''f'' @ [CHR 0x00] @ u32le 1 @ u32le 4 @ u32le 3
     @ u32le 0 @ u32le 0 @ u32le 1 @ u32le 2 @ u32le 4 @ u32le 3"

definition sample_image :: PackedImage where
  "sample_image =
     \<lparr>palette = replicate 1035 (CHR 0x00),
      frames = [\<lparr>parts = [\<lparr>sourceX = 0, sourceY = 0, targetX = 1, targetY = 2,
                              width = 4, height = 3\<rparr>],
                 frameName = ''f'', frameWidth = 4, frameHeight = 3\<rparr>]\<rparr>"

text \<open>
  A container of five records: the name list (id 2), \<^verbatim>\<open>-INDEX.OPT\<close> (id 5) with one
  image entry and one animation entry, \<^verbatim>\<open>-IMAGES.OPT\<close> (id 6), a deleted record
  (id 7, \<open>used = 0\<close>) and a data record (id 8). The name list has seven entries, out of
  order, one with an id that the ToC does not have (9), one for the deleted record, and
  the name \<open>b\<close> twice.
\<close>

definition sample_ff :: "char list" where
  "sample_ff =
     mqdb_header
     @ u32le 28
     @ u32le 5
     @ toc_entry 2 1824 112 @ toc_entry 5 37 1964 @ toc_entry 6 1077 2029
     @ toc_entry 7 3 3134 @ toc_entry 8 3 3165
     @ mqrc_header 2 1824 1
     @ u32le 7
     @ name_slot ''b'' 8 @ name_slot ''-INDEX.OPT'' 5 @ name_slot ''zz'' 9
     @ name_slot ''dead'' 7 @ name_slot ''b'' 5 @ name_slot ''-IMAGES.OPT'' 6
     @ name_slot ''a'' 8
     @ mqrc_header 5 37 1
     @ u32le 2
     @ u32le 8 @ ''img'' @ [CHR 0x00] @ u32le 0 @ u32le 1077
     @ u32le (- 1) @ ''anim'' @ [CHR 0x00] @ u32le 0 @ u32le 1077
     @ mqrc_header 6 1077 1
     @ sample_images
     @ mqrc_header 7 3 0 @ ''old''
     @ mqrc_header 8 3 1 @ ''xyz''"

definition sample_fs :: "string \<Rightarrow> char list option" where
  "sample_fs path = (if path = ''sample.ff'' then Some sample_ff else None)"

definition sample_toc :: "(RecordId \<times> TocRecord) list" where
  "sample_toc =
     [(2, \<lparr>recordId = 2, rec_size = 1824, sizeAllocated = 1824, rec_offset = 112\<rparr>),
      (5, \<lparr>recordId = 5, rec_size = 37, sizeAllocated = 37, rec_offset = 1964\<rparr>),
      (6, \<lparr>recordId = 6, rec_size = 1077, sizeAllocated = 1077, rec_offset = 2029\<rparr>),
      (7, \<lparr>recordId = 7, rec_size = 3, sizeAllocated = 3, rec_offset = 3134\<rparr>),
      (8, \<lparr>recordId = 8, rec_size = 3, sizeAllocated = 3, rec_offset = 3165\<rparr>)]"

definition sample_names :: "(string \<times> RecordId) list" where
  "sample_names = [(''-IMAGES.OPT'', 6), (''-INDEX.OPT'', 5), (''a'', 8), (''b'', 8)]"

text \<open>The decoder that the constructor builds from it, before the images are read.\<close>

definition sample_reader :: FfReader where
  "sample_reader =
     (FfReader_members ''sample.ff'')\<lparr>tableOfContents := sample_toc, recordNames := sample_names\<rparr>"

text \<open>
  A container whose \<^verbatim>\<open>-IMAGES.OPT\<close> payload is \<open>sample_images\<close> without its last
  byte, the record size being 1076.
\<close>

definition truncated_ff :: "char list" where
  "truncated_ff =
     mqdb_header
     @ u32le 28
     @ u32le 2
     @ toc_entry 2 264 64 @ toc_entry 6 1076 356
     @ mqrc_header 2 264 1
     @ u32le 1
     @ name_slot ''-IMAGES.OPT'' 6
     @ mqrc_header 6 1076 1
     @ replicate 1035 (CHR 0x00) @ u32le 1
     @ ''f'' @ [CHR 0x00] @ u32le 1 @ u32le 4 @ u32le 3
     @ u32le 0 @ u32le 0 @ u32le 1 @ u32le 2 @ u32le 4 @ [CHR 0x03, CHR 0x00, CHR 0x00]"

definition truncated_fs :: "string \<Rightarrow> char list option" where
  "truncated_fs path = (if path = ''truncated.ff'' then Some truncated_ff else None)"

definition truncated_reader :: FfReader where
  "truncated_reader =
     (FfReader_members ''truncated.ff'')
       \<lparr>tableOfContents :=
          [(2, \<lparr>recordId = 2, rec_size = 264, sizeAllocated = 264, rec_offset = 64\<rparr>),
           (6, \<lparr>recordId = 6, rec_size = 1076, sizeAllocated = 1076, rec_offset = 356\<rparr>)],
        recordNames := [(''-IMAGES.OPT'', 6)]\<rparr>"

text \<open>
  A container whose file ends after three bytes of the payload of record 8, of declared
  size 10.
\<close>

definition short_ff :: "char list" where
  "short_ff =
     mqdb_header
     @ u32le 28
     @ u32le 2
     @ toc_entry 2 264 64 @ toc_entry 8 10 356
     @ mqrc_header 2 264 1
     @ u32le 1
     @ name_slot ''a'' 8
     @ mqrc_header 8 10 1
     @ ''xyz''"

definition short_fs :: "string \<Rightarrow> char list option" where
  "short_fs path = (if path = ''short.ff'' then Some short_ff else None)"

definition short_reader :: FfReader where
  "short_reader =
     (FfReader_members ''short.ff'')
       \<lparr>tableOfContents :=
          [(2, \<lparr>recordId = 2, rec_size = 264, sizeAllocated = 264, rec_offset = 64\<rparr>),
           (8, \<lparr>recordId = 8, rec_size = 10, sizeAllocated = 10, rec_offset = 356\<rparr>)],
        recordNames := [(''a'', 8)]\<rparr>"





text \<open>A container whose ToC has the id 2 twice.\<close>

definition duplicate_ff :: "char list" where
  "duplicate_ff =
     mqdb_header
     @ u32le 28
     @ u32le 3
     @ toc_entry 2 4 80 @ toc_entry 5 0 112 @ toc_entry 2 4 80
     @ mqrc_header 2 4 1
     @ u32le 0"

definition duplicate_fs :: "string \<Rightarrow> char list option" where
  "duplicate_fs path = (if path = ''duplicate.ff'' then Some duplicate_ff else None)"

text \<open>Two headers: one with another signature, one with version 8.\<close>

definition bad_signature_ff :: "char list" where
  "bad_signature_ff = ''MQRC'' @ u32le 0 @ u32le 9 @ replicate 12 (CHR 0x00)"

definition bad_version_ff :: "char list" where
  "bad_version_ff = ''MQDB'' @ u32le 0 @ u32le 8 @ replicate 12 (CHR 0x00)"

definition bad_fs :: "string \<Rightarrow> char list option" where
  "bad_fs path =
     (if path = ''signature.ff'' then Some bad_signature_ff
      else if path = ''version.ff'' then Some bad_version_ff
      else None)"

section \<open>Auxiliary facts\<close>

subsection \<open>\<^verbatim>\<open>readImages\<close> throws nothing\<close>

declare readImages_loop.simps [simp del]

lemma and_then_Threw:
  "and_then m k = Threw msg \<longleftrightarrow> m = Threw msg \<or> (\<exists>x. m = Returned x \<and> k x = Threw msg)"
  by (cases m) simp_all

lemma readUint32_not_Threw: "readUint32 contents byteOffset \<noteq> Threw msg"
  by (simp add: readUint32_def)

lemma c_string_at_not_Threw: "c_string_at contents byteOffset \<noteq> Threw msg"
  by (simp add: c_string_at_def Let_def)

lemma read_palette_not_Threw: "read_palette contents byteOffset \<noteq> Threw msg"
  by (simp add: read_palette_def)

lemma readImages_parts_not_Threw: "readImages_parts n contents byteOffset frame \<noteq> Threw msg"
  by (induction n arbitrary: byteOffset frame)
     (auto simp: and_then_Threw readUint32_not_Threw Let_def)

lemma readImages_frames_not_Threw:
  "readImages_frames n contents byteOffset packedImage \<noteq> Threw msg"
  by (induction n arbitrary: byteOffset packedImage)
     (auto simp: and_then_Threw readUint32_not_Threw c_string_at_not_Threw
        readImages_parts_not_Threw Let_def)

lemma readImages_image_not_Threw: "readImages_image contents byteOffset \<noteq> Threw msg"
  by (auto simp: readImages_image_def and_then_Threw read_palette_not_Threw readUint32_not_Threw
        readImages_frames_not_Threw)

lemma readImages_loop_not_Threw:
  "readImages_loop contents recordSize byteOffset m \<noteq> Threw msg"
proof (induction contents recordSize byteOffset m rule: readImages_loop.induct)
  case (1 contents recordSize byteOffset m)
  show ?case
  proof (cases "byteOffset < recordSize")
    case False
    then show ?thesis by (simp add: readImages_loop.simps)
  next
    case True
    show ?thesis
    proof (cases "readImages_image contents byteOffset")
      case (Returned x)
      obtain b' img where x: "x = (b', img)" by (cases x)
      from "1.IH" [OF True refl Returned x [symmetric]] True Returned x
      show ?thesis by (subst readImages_loop.simps) simp
    next
      case (Threw m')
      with readImages_image_not_Threw show ?thesis by blast
    next
      case Undefined
      with True show ?thesis by (subst readImages_loop.simps) simp
    qed
  qed
qed

lemma readImages_loop_final:
  "readImages_loop contents recordSize byteOffset m = Returned (byteOffset', m') \<Longrightarrow>
     byteOffset \<le> length contents \<Longrightarrow> length contents = recordSize \<Longrightarrow>
     byteOffset' = recordSize"
proof (induction contents recordSize byteOffset m rule: readImages_loop.induct)
  case (1 contents recordSize byteOffset m)
  show ?case
  proof (cases "byteOffset < recordSize")
    case False
    with "1.prems" show ?thesis by (simp add: readImages_loop.simps)
  next
    case True
    show ?thesis
    proof (cases "readImages_image contents byteOffset")
      case (Returned x)
      obtain b' img where x: "x = (b', img)" by (cases x)
      from Returned x have img: "readImages_image contents byteOffset = Returned (b', img)" by simp
      from "1.prems"(1) True img
      have rec: "readImages_loop contents recordSize b'
                   (map_assign (of_nat byteOffset) img m) = Returned (byteOffset', m')"
        by (subst (asm) readImages_loop.simps) simp
      from readImages_image_Returned(2) [OF img] have "b' \<le> length contents" .
      from "1.IH" [OF True refl Returned x [symmetric] rec this "1.prems"(3)]
      show ?thesis .
    next
      case (Threw m')
      with readImages_image_not_Threw show ?thesis by blast
    next
      case Undefined
      with True "1.prems"(1) show ?thesis by (subst (asm) readImages_loop.simps) simp
    qed
  qed
qed

lemma length_read_contents: "length (fst (read_contents n file)) = n"
  by (simp add: read_contents_def stream_read_def Let_def split: prod.splits)

lemma readImages_not_Threw: "readImages r file \<noteq> Threw msg"
  by (auto simp: readImages_def and_then_Threw readImages_loop_not_Threw Let_def
           split: option.splits prod.splits)

subsection \<open>Encoding and decoding 32-bit values\<close>

lemma length_u32le [simp]: "length (u32le w) = 4"
  by (simp add: u32le_def)

lemma nat_bytes:
  assumes "(n::nat) < 2 ^ 32"
  shows "n mod 256 + 256 * (n div 256 mod 256 + 256 * (n div 65536 mod 256 + 256 * (n div 16777216 mod 256))) = n"
proof -
  have d3: "n div 16777216 mod 256 = n div 16777216"
    using assms by (simp add: less_mult_imp_div_less)
  have "n div 16777216 = n div 65536 div 256"
    using div_mult2_eq [of n 65536 256] by simp
  then have d2: "n div 65536 mod 256 + 256 * (n div 16777216) = n div 65536"
    by simp
  have "n div 65536 = n div 256 div 256"
    using div_mult2_eq [of n 256 256] by simp
  then have d1: "n div 256 mod 256 + 256 * (n div 65536) = n div 256"
    by simp
  have d0: "n mod 256 + 256 * (n div 256) = n"
    by simp
  show ?thesis by (simp only: d3 d2 d1 d0)
qed

lemma of_char_word: "(of_char c :: uint32_t) = of_nat (of_char c)"
  by (simp add: of_nat_of_char)

lemma uint32_of_bytes_u32le [simp]: "uint32_of_bytes (u32le w) = w"
proof -
  have "unat w < 2 ^ 32" using unsigned_less [of w, where 'a = nat] by simp
  note nb = nat_bytes [OF this]
  have "uint32_of_bytes (u32le w) = of_nat (unat w mod 256 + 256 * (unat w div 256 mod 256 + 256 * (unat w div 65536 mod 256 + 256 * (unat w div 16777216 mod 256))))"
    by (simp add: u32le_def of_char_word)
  also have "\<dots> = of_nat (unat w)"
    by (simp only: nb)
  finally show ?thesis by simp
qed


lemma char_of_of_char_plus: "char_of (of_char c + 256 * (k::nat)) = c"
proof -
  have "char_of (of_char c + 256 * k) = char_of ((of_char c + 256 * k) mod 256)"
    by (simp only: char_of_mod_256)
  also have "(of_char c + 256 * k) mod 256 = (of_char c :: nat)"
    by simp
  finally show ?thesis by simp
qed

lemma u32le_uint32_of_bytes:
  assumes "length bs = 4"
  shows "u32le (uint32_of_bytes bs) = bs"
proof -
  from assms obtain a b c d where bs: "bs = [a, b, c, d]"
    by (auto simp: length_Suc_conv numeral_eq_Suc)
  define A B C D :: nat where "A = of_char a" and "B = of_char b" and "C = of_char c" and "D = of_char d"
  define N where "N = A + 256 * (B + 256 * (C + 256 * D))"
  have lt: "A < 256" "B < 256" "C < 256" "D < 256"
    by (simp_all add: A_def B_def C_def D_def)
  then have N: "N < 2 ^ 32" by (simp add: N_def)
  have "uint32_of_bytes bs = of_nat N"
    by (simp add: bs of_char_word N_def A_def B_def C_def D_def)
  moreover have "unat (of_nat N :: uint32_t) = N"
    using N by (simp add: unsigned_of_nat take_bit_nat_eq_self)
  ultimately have u: "unat (uint32_of_bytes bs) = N" by simp
  have d1: "N div 256 = B + 256 * (C + 256 * D)" using lt by (simp add: N_def)
  have d2: "N div 65536 = C + 256 * D"
    using div_mult2_eq [of N 256 256] lt by (simp add: d1)
  have d3: "N div 16777216 = D"
    using div_mult2_eq [of N 65536 256] lt by (simp add: d2)
  have "char_of N = a" unfolding N_def A_def by (rule char_of_of_char_plus)
  moreover have "char_of (N div 256) = b" unfolding d1 B_def by (rule char_of_of_char_plus)
  moreover have "char_of (N div 65536) = c" unfolding d2 C_def by (rule char_of_of_char_plus)
  moreover have "char_of (N div 16777216) = d" unfolding d3 D_def by simp
  ultimately have "[char_of N, char_of (N div 256), char_of (N div 65536),
      char_of (N div 16777216)] = bs"
    by (simp only: bs)
  then show ?thesis by (simp only: u32le_def u)
qed

lemma uint32_of_bytes_MQDB: "uint32_of_bytes ''MQDB'' = mqdbFileSignature"
  by (simp add: mqdbFileSignature_def FFSIGNATURE_def)

lemma sig_inj: "length bs = 4 \<Longrightarrow> uint32_of_bytes bs = mqdbFileSignature \<longleftrightarrow> bs = ''MQDB''"
  using u32le_uint32_of_bytes [of bs] u32le_uint32_of_bytes [of "''MQDB''"] uint32_of_bytes_MQDB
  by auto

subsection \<open>The map\<close>

lemma map_of_map_assign: "map_of (map_assign k v m) = (map_of m)(k \<mapsto> v)"
proof (induction m)
  case Nil
  then show ?case by simp
next
  case (Cons p m)
  obtain k' v' where p: "p = (k', v')" by (cases p)
  show ?case unfolding p using Cons.IH
    by (auto simp: fun_eq_iff)
qed

lemma length_map_assign:
  "map_of m k = None \<Longrightarrow> length (map_assign k v m) = Suc (length m)"
  by (induction m) (auto split: if_splits)

lemma set_fst_map_assign:
  "set (map fst (map_assign k v m)) = insert k (set (map fst m))"
proof -
  have "set (map fst (map_assign k v m)) = dom (map_of (map_assign k v m))"
    by (simp add: dom_map_of_conv_image_fst)
  also have "\<dots> = insert k (dom (map_of m))"
    by (simp add: map_of_map_assign)
  finally show ?thesis by (simp add: dom_map_of_conv_image_fst)
qed

lemma sorted_map_assign:
  "sorted_wrt (<) (map fst m) \<Longrightarrow> sorted_wrt (<) (map fst (map_assign k v m))"
proof (induction m)
  case Nil
  then show ?case by simp
next
  case (Cons p m)
  obtain k' v' where p: "p = (k', v')" by (cases p)
  from Cons.prems p have tl: "sorted_wrt (<) (map fst m)"
    and hd: "\<forall>x \<in> set (map fst m). k' < x"
    by auto
  show ?case
  proof (cases "k < k'")
    case True
    with Cons.prems p hd show ?thesis by (auto intro: less_trans)
  next
    case False
    show ?thesis
    proof (cases "k = k'")
      case True
      with Cons.prems p show ?thesis by auto
    next
      case ne: False
      with False have "k' < k" by simp
      with Cons.IH [OF tl] hd p False ne show ?thesis
        using set_fst_map_assign [of k v m] by auto
    qed
  qed
qed

subsection \<open>The stream\<close>

lemma stream_read_within:
  "\<not> failbit file \<Longrightarrow> gpos file + n \<le> length (fileBytes file) \<Longrightarrow>
     stream_read n file =
       (take n (drop (gpos file) (fileBytes file)), file\<lparr>gpos := gpos file + n\<rparr>)"
  by (simp add: stream_read_def Let_def min_def)

lemma stream_read_failed: "failbit file \<Longrightarrow> stream_read n file = ([], file)"
  by (simp add: stream_read_def)


lemma stream_read_good:
  assumes "stream_read n file = (got, file')" and "\<not> failbit file'" and "0 < n"
  shows "\<not> failbit file \<and> gpos file + n \<le> length (fileBytes file)
         \<and> got = take n (drop (gpos file) (fileBytes file))
         \<and> file' = file\<lparr>gpos := gpos file + n\<rparr>"
proof -
  from assms(1,2) have nf: "\<not> failbit file"
    by (auto simp: stream_read_def Let_def split: if_splits)
  with assms(1,2) have "\<not> length (take n (drop (gpos file) (fileBytes file))) < n"
    by (auto simp: stream_read_def Let_def split: if_splits)
  with assms(3) have inb: "gpos file + n \<le> length (fileBytes file)"
    by (simp add: min_def split: if_splits)
  from stream_read_within [OF nf inb] assms(1) nf inb show ?thesis by simp
qed

lemma stream_read_bytes: "stream_read n file = (got, file') \<Longrightarrow> fileBytes file' = fileBytes file"
  by (auto simp: stream_read_def Let_def split: if_splits)

lemma readUint32_file_within:
  "\<not> failbit file \<Longrightarrow> gpos file + 4 \<le> length (fileBytes file) \<Longrightarrow>
     readUint32_file file =
       (uint32_of_bytes (take 4 (drop (gpos file) (fileBytes file))), file\<lparr>gpos := gpos file + 4\<rparr>)"
  by (simp add: readUint32_file_def stream_read_within)

lemma readUint32_file_good:
  assumes "readUint32_file file = (v, file')" and "\<not> failbit file'"
  shows "\<not> failbit file \<and> gpos file + 4 \<le> length (fileBytes file)
         \<and> v = uint32_of_bytes (take 4 (drop (gpos file) (fileBytes file)))
         \<and> file' = file\<lparr>gpos := gpos file + 4\<rparr>"
proof -
  obtain got where sr: "stream_read 4 file = (got, file')" and v: "v = uint32_of_bytes got"
    using assms(1) by (auto simp: readUint32_file_def split: prod.splits)
  from stream_read_good [OF sr assms(2)] v show ?thesis by simp
qed


subsection \<open>The loop of \<^verbatim>\<open>readTableOfContents\<close>\<close>

lemma checkFileHeader_open:
  assumes "sizeof_MqdbHeader \<le> length bytes"
  shows "checkFileHeader (open_file bytes) =
     (if take 4 bytes \<noteq> ''MQDB'' then Threw ''Not a MQDB file''
      else if uint32_of_bytes (take 4 (drop 8 bytes)) \<noteq> mqdbFileVersion
      then Threw ''Wrong MQDB file version''
      else Returned \<lparr>fileBytes = bytes, gpos = sizeof_MqdbHeader, failbit = False\<rparr>)"
proof -
  from assms have rd: "stream_read sizeof_MqdbHeader (open_file bytes)
      = (take sizeof_MqdbHeader bytes,
         \<lparr>fileBytes = bytes, gpos = sizeof_MqdbHeader, failbit = False\<rparr>)"
    by (simp add: stream_read_within open_file_def)
  from assms have f0: "field32 0 (take sizeof_MqdbHeader bytes)
      = Some (uint32_of_bytes (take 4 bytes))"
    and f8: "field32 8 (take sizeof_MqdbHeader bytes)
      = Some (uint32_of_bytes (take 4 (drop 8 bytes)))"
    by (simp_all add: field32_def sizeof_MqdbHeader_def min_def drop_take)
  from assms have "length (take 4 bytes) = 4" by (simp add: sizeof_MqdbHeader_def)
  from sig_inj [OF this]
  have sig: "uint32_of_bytes (take 4 bytes) = mqdbFileSignature \<longleftrightarrow> take 4 bytes = ''MQDB''" .
  show ?thesis
    by (simp add: checkFileHeader_def rd f0 f8 sig)
qed

lemma field32_0_take:
  "4 \<le> n \<Longrightarrow> a + n \<le> length bytes \<Longrightarrow>
     field32 0 (take n (drop a bytes)) = Some (uint32_of_bytes (take 4 (drop a bytes)))"
  by (auto simp: field32_def min_def)

lemma recordId_TocRecord_of_bytes:
  "recordId (TocRecord_of_bytes (take sizeof_TocRecord (drop a bytes)))
     = uint32_of_bytes (take 4 (drop a bytes))"
  by (simp add: TocRecord_of_bytes_def sizeof_TocRecord_def min_def)

lemma toc_loop_step:
  assumes "\<not> failbit file" and "gpos file + sizeof_TocRecord \<le> length (fileBytes file)"
  shows "readTableOfContents_loop (Suc n) toc file =
     (let e = TocRecord_of_bytes (take sizeof_TocRecord (drop (gpos file) (fileBytes file)))
      in if map_of toc (recordId e) \<noteq> None
         then Threw ''MQDB ToC contains records with non-unique ids''
         else readTableOfContents_loop n (map_assign (recordId e) e toc)
                (file\<lparr>gpos := gpos file + sizeof_TocRecord\<rparr>))"
proof -
  from assms have f: "field32 0 (take sizeof_TocRecord (drop (gpos file) (fileBytes file)))
      = Some (uint32_of_bytes (take 4 (drop (gpos file) (fileBytes file))))"
    by (intro field32_0_take) (simp_all add: sizeof_TocRecord_def)
  from assms(2) have len: "length (take sizeof_TocRecord (drop (gpos file) (fileBytes file)))
      = sizeof_TocRecord" by simp
  show ?thesis
    by (simp add: stream_read_within [OF assms] f len recordId_TocRecord_of_bytes Let_def
          del: length_take)
qed

lemma tocEntries_nth:
  "j < n \<Longrightarrow> tocEntries bytes a n ! j
     = TocRecord_of_bytes (take sizeof_TocRecord (drop (a + sizeof_TocRecord * j) bytes))"
proof (induction n arbitrary: a j)
  case 0
  then show ?case by simp
next
  case (Suc n)
  show ?case
  proof (cases j)
    case 0
    then show ?thesis by simp
  next
    case (Suc j')
    with Suc.prems have "j' < n" by simp
    from Suc.IH [OF this, of "a + sizeof_TocRecord"] Suc show ?thesis
      by (simp add: add.assoc)
  qed
qed

lemma length_tocEntries [simp]: "length (tocEntries bytes a n) = n"
  by (induction n arbitrary: a) simp_all

lemma toc_loop_present:
  assumes "\<not> failbit file" and "j < n"
    and "gpos file + sizeof_TocRecord * Suc j \<le> length (fileBytes file)"
    and "map_of toc (recordId (tocEntries (fileBytes file) (gpos file) n ! j)) \<noteq> None"
  shows "readTableOfContents_loop n toc file
           = Threw ''MQDB ToC contains records with non-unique ids''"
  using assms
proof (induction n arbitrary: toc "file" j)
  case 0
  then show ?case by simp
next
  case (Suc n)
  let ?e = "TocRecord_of_bytes (take sizeof_TocRecord (drop (gpos file) (fileBytes file)))"
  let ?file' = "file\<lparr>gpos := gpos file + sizeof_TocRecord\<rparr>"
  from Suc.prems(3) have inb: "gpos file + sizeof_TocRecord \<le> length (fileBytes file)"
    by simp
  note step = toc_loop_step [OF Suc.prems(1) inb, of n toc]
  show ?case
  proof (cases "map_of toc (recordId ?e) \<noteq> None")
    case True
    with step show ?thesis by (simp add: Let_def)
  next
    case False
    with Suc.prems(4) have "j \<noteq> 0" by (cases j) auto
    then obtain j' where j: "j = Suc j'" by (cases j) auto
    have "readTableOfContents_loop n (map_assign (recordId ?e) ?e toc) ?file'
            = Threw ''MQDB ToC contains records with non-unique ids''"
    proof (rule Suc.IH [of ?file' j'])
      show "\<not> failbit ?file'" using Suc.prems(1) by simp
      show "j' < n" using Suc.prems(2) j by simp
      show "gpos ?file' + sizeof_TocRecord * Suc j' \<le> length (fileBytes ?file')"
        using Suc.prems(3) j by simp
      show "map_of (map_assign (recordId ?e) ?e toc)
              (recordId (tocEntries (fileBytes ?file') (gpos ?file') n ! j')) \<noteq> None"
        using Suc.prems(4) j by (simp add: map_of_map_assign)
    qed
    with step False show ?thesis by (simp add: Let_def)
  qed
qed

lemma toc_loop_duplicate:
  assumes "\<not> failbit file" and "i < j" and "j < n"
    and "gpos file + sizeof_TocRecord * Suc j \<le> length (fileBytes file)"
    and "recordId (tocEntries (fileBytes file) (gpos file) n ! i)
           = recordId (tocEntries (fileBytes file) (gpos file) n ! j)"
  shows "readTableOfContents_loop n toc file
           = Threw ''MQDB ToC contains records with non-unique ids''"
  using assms
proof (induction n arbitrary: toc "file" i j)
  case 0
  then show ?case by simp
next
  case (Suc n)
  let ?e = "TocRecord_of_bytes (take sizeof_TocRecord (drop (gpos file) (fileBytes file)))"
  let ?file' = "file\<lparr>gpos := gpos file + sizeof_TocRecord\<rparr>"
  from Suc.prems(4) have inb: "gpos file + sizeof_TocRecord \<le> length (fileBytes file)"
    by simp
  note step = toc_loop_step [OF Suc.prems(1) inb, of n toc]
  from Suc.prems(2) obtain j' where j: "j = Suc j'" by (cases j) auto
  have f': "\<not> failbit ?file'" using Suc.prems(1) by simp
  have j'n: "j' < n" using Suc.prems(3) j by simp
  have inb': "gpos ?file' + sizeof_TocRecord * Suc j' \<le> length (fileBytes ?file')"
    using Suc.prems(4) j by simp
  show ?case
  proof (cases "map_of toc (recordId ?e) \<noteq> None")
    case True
    with step show ?thesis by (simp add: Let_def)
  next
    case False
    have "readTableOfContents_loop n (map_assign (recordId ?e) ?e toc) ?file'
            = Threw ''MQDB ToC contains records with non-unique ids''"
    proof (cases i)
      case 0
      with Suc.prems(5) j have "recordId (tocEntries (fileBytes ?file') (gpos ?file') n ! j')
          = recordId ?e" by simp
      then have "map_of (map_assign (recordId ?e) ?e toc)
              (recordId (tocEntries (fileBytes ?file') (gpos ?file') n ! j')) \<noteq> None"
        by (simp add: map_of_map_assign)
      from toc_loop_present [OF f' j'n inb' this] show ?thesis .
    next
      case (Suc i')
      with Suc.prems(2) j have "i' < j'" by simp
      moreover from Suc.prems(5) j Suc
      have "recordId (tocEntries (fileBytes ?file') (gpos ?file') n ! i')
              = recordId (tocEntries (fileBytes ?file') (gpos ?file') n ! j')" by simp
      ultimately show ?thesis
        using Suc.IH [of ?file' i' j'] f' j'n inb' by blast
    qed
    with step False show ?thesis by (simp add: Let_def)
  qed
qed

lemma toc_loop_Returned:
  assumes "readTableOfContents_loop n toc file = Returned (toc', file')" and "0 < n"
  shows "\<not> failbit file \<and> gpos file + sizeof_TocRecord * n \<le> length (fileBytes file)
         \<and> distinct (map recordId (tocEntries (fileBytes file) (gpos file) n))
         \<and> (\<forall>e \<in> set (tocEntries (fileBytes file) (gpos file) n). map_of toc (recordId e) = None)
         \<and> map_of toc' = map_of toc ++ map_of (toc_pairs (tocEntries (fileBytes file) (gpos file) n))
         \<and> length toc' = length toc + n"
  using assms
proof (induction n arbitrary: toc "file")
  case 0
  then show ?case by simp
next
  case (Suc n)
  let ?e = "TocRecord_of_bytes (take sizeof_TocRecord (drop (gpos file) (fileBytes file)))"
  let ?file' = "file\<lparr>gpos := gpos file + sizeof_TocRecord\<rparr>"
  let ?toc1 = "map_assign (recordId ?e) ?e toc"
  obtain got file1 where sr: "stream_read sizeof_TocRecord file = (got, file1)"
    by (cases "stream_read sizeof_TocRecord file")
  from Suc.prems(1) sr have full: "\<not> length got < sizeof_TocRecord"
    by (auto simp: field32_def sizeof_TocRecord_def split: option.splits if_splits)
  have nf: "\<not> failbit file"
  proof
    assume "failbit file"
    from stream_read_failed [OF this, of sizeof_TocRecord] sr full show False
      by (simp add: sizeof_TocRecord_def)
  qed
  from sr full nf have inb: "gpos file + sizeof_TocRecord \<le> length (fileBytes file)"
    by (auto simp: stream_read_def Let_def sizeof_TocRecord_def min_def split: if_splits)
  note step = toc_loop_step [OF nf inb, of n toc]
  from Suc.prems(1) step have fresh: "map_of toc (recordId ?e) = None"
    by (auto simp: Let_def split: if_splits)
  with Suc.prems(1) step
  have rest: "readTableOfContents_loop n ?toc1 ?file' = Returned (toc', file')"
    by (simp add: Let_def)
  show ?case
  proof (cases n)
    case 0
    with rest have "toc' = ?toc1" by simp
    with 0 nf inb fresh show ?thesis
      by (simp add: map_of_map_assign toc_pairs_def length_map_assign map_add_def
            fun_eq_iff split: option.splits)
  next
    case (Suc m)
    then have "0 < n" by simp
    from Suc.IH [OF rest this]
    have ih: "gpos ?file' + sizeof_TocRecord * n \<le> length (fileBytes ?file')"
      "distinct (map recordId (tocEntries (fileBytes file) (gpos file + sizeof_TocRecord) n))"
      "\<forall>e \<in> set (tocEntries (fileBytes file) (gpos file + sizeof_TocRecord) n).
          map_of ?toc1 (recordId e) = None"
      "map_of toc' = map_of ?toc1
          ++ map_of (toc_pairs (tocEntries (fileBytes file) (gpos file + sizeof_TocRecord) n))"
      "length toc' = length ?toc1 + n"
      by simp_all
    from ih(3) have ne: "\<forall>e \<in> set (tocEntries (fileBytes file) (gpos file + sizeof_TocRecord) n).
        recordId e \<noteq> recordId ?e \<and> map_of toc (recordId e) = None"
      by (auto simp: map_of_map_assign split: if_splits)
    then have notin: "recordId ?e \<notin> recordId ` set (tocEntries (fileBytes file)
        (gpos file + sizeof_TocRecord) n)" by auto
    have notdom: "map_of (toc_pairs (tocEntries (fileBytes file)
        (gpos file + sizeof_TocRecord) n)) (recordId ?e) = None"
      using notin by (auto simp: toc_pairs_def map_of_eq_None_iff image_iff)
    have "map_of toc' = map_of toc
        ++ map_of (toc_pairs (tocEntries (fileBytes file) (gpos file) (Suc n)))"
      unfolding ih(4) using notdom
      by (auto simp: map_of_map_assign toc_pairs_def map_add_def fun_eq_iff
            split: option.splits)
    with nf ih(1,2,5) ne notin fresh show ?thesis
      by (simp add: length_map_assign)
  qed
qed

subsection \<open>The loop of \<^verbatim>\<open>readNameList\<close>\<close>












lemma name_loop_sorted:
  "readNameList_loop n toc recNames file = Returned (recNames', file') \<Longrightarrow>
     sorted_wrt (<) (map fst recNames) \<Longrightarrow> sorted_wrt (<) (map fst recNames')"
proof (induction n arbitrary: recNames "file")
  case 0
  then show ?case by simp
next
  case (Suc n)
  from Suc.prems(1) obtain nm1 f1 where
    rest: "readNameList_loop n toc nm1 f1 = Returned (recNames', file')"
    and nm1: "nm1 = recNames \<or> (\<exists>k v. nm1 = map_assign k v recNames)"
    by (auto simp: Let_def split: prod.splits option.splits if_splits)
  from nm1 Suc.prems(2) have "sorted_wrt (<) (map fst nm1)"
    by (auto intro: sorted_map_assign)
  from Suc.IH [OF rest this] show ?case .
qed

subsection \<open>What the stages change\<close>

lemma readTableOfContents_fields:
  "readTableOfContents r file = Returned (r', file') \<Longrightarrow>
     \<exists>toc. r' = r\<lparr>tableOfContents := toc\<rparr>"
  by (auto simp: readTableOfContents_def and_then_Returned Let_def split: prod.splits)

lemma readNameList_fields:
  assumes "readNameList r file = Returned (r', file')"
  shows "\<exists>recNames. r' = r\<lparr>recordNames := recNames\<rparr>
           \<and> (sorted_wrt (<) (map fst (recordNames r)) \<longrightarrow> sorted_wrt (<) (map fst recNames))"
    and "findTocRecord r NameList \<noteq> None"
  using assms
  by (auto simp: readNameList_def and_then_Returned Let_def
           split: prod.splits option.splits dest: name_loop_sorted)

lemma readIndex_loop_indexData:
  "readIndex_loop n contents byteOffset indexData_m = Returned (byteOffset', indexData_m') \<Longrightarrow>
     indexData_m' = indexData_m"
proof (induction n arbitrary: byteOffset)
  case 0
  then show ?case by simp
next
  case (Suc n)
  from Suc.prems obtain b where "readIndex_loop n contents b indexData_m
      = Returned (byteOffset', indexData_m')"
    by (auto simp: and_then_Returned Let_def split: if_splits)
  from Suc.IH [OF this] show ?case .
qed

lemma readIndex_fields:
  "readIndex r file = Returned (r', file') \<Longrightarrow> r' = r"
  by (auto simp: readIndex_def and_then_Returned Let_def
           split: prod.splits option.splits dest!: readIndex_loop_indexData)

lemma readImages_fields:
  "readImages r file = Returned (r', file') \<Longrightarrow>
     tableOfContents r' = tableOfContents r \<and> recordNames r' = recordNames r
     \<and> indexData r' = indexData r \<and> ffFilePath r' = ffFilePath r"
  by (auto simp: readImages_def and_then_Returned Let_def split: prod.splits option.splits)

lemma ctor_stages:
  assumes "FfReader_ctor fs path readImageData = Returned r"
  shows "\<exists>bytes file1 r1 file2 r2 file3 r3 file4.
      fs path = Some bytes
      \<and> checkFileHeader (open_file bytes) = Returned file1
      \<and> readTableOfContents (FfReader_members path) file1 = Returned (r1, file2)
      \<and> readNameList r1 file2 = Returned (r2, file3)
      \<and> readIndex r2 file3 = Returned (r3, file4)
      \<and> (if readImageData then \<exists>file5. readImages r3 file4 = Returned (r, file5) else r = r3)"
proof -
  from assms obtain bytes where b: "fs path = Some bytes"
    by (auto simp: FfReader_ctor_def split: option.splits)
  with assms obtain file1 where s1: "checkFileHeader (open_file bytes) = Returned file1"
    and k1: "and_then (readTableOfContents (FfReader_members path) file1) (\<lambda>(r, file).
          and_then (readNameList r file) (\<lambda>(r, file).
          and_then (readIndex r file) (\<lambda>(r, file).
            if readImageData
            then and_then (readImages r file) (\<lambda>(r, file). Returned r)
            else Returned r))) = Returned r"
    by (auto simp: FfReader_ctor_def and_then_Returned)
  from k1 obtain r1 file2 where s2: "readTableOfContents (FfReader_members path) file1
        = Returned (r1, file2)"
    and k2: "and_then (readNameList r1 file2) (\<lambda>(r, file).
          and_then (readIndex r file) (\<lambda>(r, file).
            if readImageData
            then and_then (readImages r file) (\<lambda>(r, file). Returned r)
            else Returned r)) = Returned r"
    by (auto simp: and_then_Returned)
  from k2 obtain r2 file3 where s3: "readNameList r1 file2 = Returned (r2, file3)"
    and k3: "and_then (readIndex r2 file3) (\<lambda>(r, file).
            if readImageData
            then and_then (readImages r file) (\<lambda>(r, file). Returned r)
            else Returned r) = Returned r"
    by (auto simp: and_then_Returned)
  from k3 obtain r3 file4 where s4: "readIndex r2 file3 = Returned (r3, file4)"
    and k4: "(if readImageData
            then and_then (readImages r3 file4) (\<lambda>(r, file). Returned r)
            else Returned r3) = Returned r"
    by (auto simp: and_then_Returned)
  from k4 have "if readImageData then \<exists>file5. readImages r3 file4 = Returned (r, file5)
      else r = r3"
    by (auto simp: and_then_Returned split: if_splits)
  with b s1 s2 s3 s4 show ?thesis by blast
qed

subsection \<open>Running the decoder on the sample containers\<close>

lemmas readTableOfContents_loop_numeral =
  readTableOfContents_loop.simps(2) [of "pred_numeral k", folded numeral_eq_Suc] for k
lemmas readNameList_loop_numeral =
  readNameList_loop.simps(2) [of "pred_numeral k", folded numeral_eq_Suc] for k
lemmas readIndex_loop_numeral =
  readIndex_loop.simps(2) [of "pred_numeral k", folded numeral_eq_Suc] for k
lemmas readImages_parts_numeral =
  readImages_parts.simps(2) [of "pred_numeral k", folded numeral_eq_Suc] for k
lemmas readImages_frames_numeral =
  readImages_frames.simps(2) [of "pred_numeral k", folded numeral_eq_Suc] for k
lemmas tocEntries_numeral =
  tocEntries.simps(2) [of _ _ "pred_numeral k", folded numeral_eq_Suc] for k

lemmas loop_numerals = readTableOfContents_loop_numeral readNameList_loop_numeral
  readIndex_loop_numeral readImages_parts_numeral readImages_frames_numeral

lemmas fixture_defs = toc_entry_def mqrc_header_def name_slot_def mqdb_header_def
  sample_images_def

lemmas eval_simps = stream_read_within readUint32_file_within open_file_def
  seekg_def seekg_pos_def tellg_def field32_def read_contents_def
  sizeof_MqdbHeader_def sizeof_TocRecord_def sizeof_MqrcHeader_def
  mqdbFileSignature_def mqrcSignature_def FFSIGNATURE_def mqdbFileVersion_def NameList_def
  findTocRecord_def findTocRecord_name_def indexOptRecordName_def imagesOptRecordName_def
  FfReader_members_def TocRecord_of_bytes_def nameString_of_def
  readUint32_def c_string_at_def read_palette_def paletteSize_def
  fixture_defs loop_numerals

lemma length_sample_ff: "length sample_ff = 3196"
  by (simp add: sample_ff_def fixture_defs)

lemmas sample_ff_drop = arg_cong [OF sample_ff_def, of "drop k"] for k
lemmas sample_ff_take = arg_cong [OF sample_ff_def, of "take n"] for n
lemmas sample_simps = length_sample_ff sample_ff_drop sample_ff_take

lemma sample_header:
  "checkFileHeader (open_file sample_ff)
     = Returned \<lparr>fileBytes = sample_ff, gpos = 24, failbit = False\<rparr>"
  by (simp add: checkFileHeader_def eval_simps sample_simps)

lemma sample_toc_stage:
  "readTableOfContents (FfReader_members ''sample.ff'')
       \<lparr>fileBytes = sample_ff, gpos = 24, failbit = False\<rparr>
     = Returned ((FfReader_members ''sample.ff'')\<lparr>tableOfContents := sample_toc\<rparr>,
                 \<lparr>fileBytes = sample_ff, gpos = 112, failbit = False\<rparr>)"
  by (simp add: readTableOfContents_def sample_toc_def eval_simps sample_simps)

lemma sample_names_stage:
  "readNameList ((FfReader_members ''sample.ff'')\<lparr>tableOfContents := sample_toc\<rparr>)
       \<lparr>fileBytes = sample_ff, gpos = 112, failbit = False\<rparr>
     = Returned (sample_reader, \<lparr>fileBytes = sample_ff, gpos = 1964, failbit = False\<rparr>)"
  by (simp add: readNameList_def sample_reader_def sample_names_def sample_toc_def
        eval_simps sample_simps)

lemma sample_index_stage:
  "readIndex sample_reader \<lparr>fileBytes = sample_ff, gpos = 1964, failbit = False\<rparr>
     = Returned (sample_reader, \<lparr>fileBytes = sample_ff, gpos = 2029, failbit = False\<rparr>)"
  by (simp add: readIndex_def sample_reader_def sample_names_def sample_toc_def
        eval_simps sample_simps)

lemma sample_images_loop:
  "readImages_loop sample_images 1077 0 [] = Returned (1077, [(0, sample_image)])"
  by (simp add: readImages_loop.simps readImages_image_def sample_image_def eval_simps)

lemma length_sample_images: "length sample_images = 1077"
  by (simp add: sample_images_def)

lemma sample_images_stage:
  "readImages sample_reader \<lparr>fileBytes = sample_ff, gpos = 2029, failbit = False\<rparr>
     = Returned (sample_reader\<lparr>packedImages := [(0, sample_image)]\<rparr>,
                 \<lparr>fileBytes = sample_ff, gpos = 3134, failbit = False\<rparr>)"
proof -
  have rd: "take 1077 (drop 2057 sample_ff) = sample_images"
    by (simp add: sample_simps fixture_defs)
  show ?thesis
    by (simp add: readImages_def sample_reader_def sample_names_def sample_toc_def
          eval_simps length_sample_ff length_sample_images rd sample_images_loop
          del: sample_images_def)
qed

lemma sample_ctor_True:
  "FfReader_ctor sample_fs ''sample.ff'' True
     = Returned (sample_reader\<lparr>packedImages := [(0, sample_image)]\<rparr>)"
  by (simp add: FfReader_ctor_def sample_fs_def sample_header sample_toc_stage
        sample_names_stage sample_index_stage sample_images_stage)

lemma sample_ctor_False:
  "FfReader_ctor sample_fs ''sample.ff'' False = Returned sample_reader"
  by (simp add: FfReader_ctor_def sample_fs_def sample_header sample_toc_stage
        sample_names_stage sample_index_stage)

subsection \<open>\<^verbatim>\<open>getRecordData\<close> on a resolved record\<close>

lemma getRecordData_record_Some:
  "fs (ffFilePath r) = Some bytes \<Longrightarrow>
     getRecordData_record fs r entry data =
       (let got = take (unat (rec_size entry))
                    (drop (unat (rec_offset entry) + sizeof_MqrcHeader) bytes)
        in (True, got @ drop (length got) (vector_resize (unat (rec_size entry)) data)))"
  by (simp add: getRecordData_record_def open_file_def seekg_def stream_read_def Let_def)

lemma length_vector_resize: "length (vector_resize n xs) = n"
  by (simp add: vector_resize_def)

lemma getRecordData_record_None:
  "fs (ffFilePath r) = None \<Longrightarrow> getRecordData_record fs r entry data = (False, data)"
  by (simp add: getRecordData_record_def)

lemma getRecordData_record_full:
  assumes "fs (ffFilePath r) = Some bytes"
    and "unat (rec_offset entry) + sizeof_MqrcHeader + unat (rec_size entry) \<le> length bytes"
  shows "getRecordData_record fs r entry data =
     (True, take (unat (rec_size entry))
              (drop (unat (rec_offset entry) + sizeof_MqrcHeader) bytes))"
proof -
  from assms(2) have "length (take (unat (rec_size entry))
      (drop (unat (rec_offset entry) + sizeof_MqrcHeader) bytes)) = unat (rec_size entry)"
    by simp
  then show ?thesis
    by (simp add: getRecordData_record_Some [of fs r bytes, OF assms(1)] Let_def
          length_vector_resize del: length_take)
qed

lemma sample_toc_8:
  "findTocRecord sample_reader 8
     = Some \<lparr>recordId = 8, rec_size = 3, sizeAllocated = 3, rec_offset = 3165\<rparr>"
  by (simp add: findTocRecord_def sample_reader_def sample_toc_def)

lemma sample_name_a:
  "findTocRecord_name sample_reader ''a''
     = Some \<lparr>recordId = 8, rec_size = 3, sizeAllocated = 3, rec_offset = 3165\<rparr>"
  by (simp add: findTocRecord_name_def findTocRecord_def sample_reader_def sample_names_def
        sample_toc_def)

lemma sample_payload_8: "take 3 (drop 3193 sample_ff) = ''xyz''"
  by (simp add: sample_simps fixture_defs)

lemma sample_path: "sample_fs (ffFilePath sample_reader) = Some sample_ff"
  by (simp add: sample_fs_def sample_reader_def FfReader_members_def)

lemma length_short_ff: "length short_ff = 387"
  by (simp add: short_ff_def fixture_defs)

lemmas short_ff_drop = arg_cong [OF short_ff_def, of "drop k"] for k
lemmas short_ff_take = arg_cong [OF short_ff_def, of "take n"] for n
lemmas short_simps = length_short_ff short_ff_drop short_ff_take

lemma short_ctor: "FfReader_ctor short_fs ''short.ff'' True = Returned short_reader"
proof -
  have 1: "checkFileHeader (open_file short_ff)
      = Returned \<lparr>fileBytes = short_ff, gpos = 24, failbit = False\<rparr>"
    by (simp add: checkFileHeader_def eval_simps short_simps)
  have 2: "readTableOfContents (FfReader_members ''short.ff'')
        \<lparr>fileBytes = short_ff, gpos = 24, failbit = False\<rparr>
      = Returned ((FfReader_members ''short.ff'')
                    \<lparr>tableOfContents := tableOfContents short_reader\<rparr>,
                  \<lparr>fileBytes = short_ff, gpos = 64, failbit = False\<rparr>)"
    by (simp add: readTableOfContents_def short_reader_def eval_simps short_simps)
  have 3: "readNameList ((FfReader_members ''short.ff'')
                    \<lparr>tableOfContents := tableOfContents short_reader\<rparr>)
        \<lparr>fileBytes = short_ff, gpos = 64, failbit = False\<rparr>
      = Returned (short_reader, \<lparr>fileBytes = short_ff, gpos = 356, failbit = False\<rparr>)"
    by (simp add: readNameList_def short_reader_def eval_simps short_simps)
  have 4: "readIndex short_reader \<lparr>fileBytes = short_ff, gpos = 356, failbit = False\<rparr>
      = Returned (short_reader, \<lparr>fileBytes = short_ff, gpos = 356, failbit = False\<rparr>)"
    by (simp add: readIndex_def short_reader_def eval_simps)
  have 5: "readImages short_reader \<lparr>fileBytes = short_ff, gpos = 356, failbit = False\<rparr>
      = Returned (short_reader, \<lparr>fileBytes = short_ff, gpos = 356, failbit = False\<rparr>)"
    by (simp add: readImages_def short_reader_def eval_simps)
  show ?thesis
    by (simp add: FfReader_ctor_def short_fs_def 1 2 3 4 5)
qed

lemma short_toc_8:
  "findTocRecord short_reader 8
     = Some \<lparr>recordId = 8, rec_size = 10, sizeAllocated = 10, rec_offset = 356\<rparr>"
  by (simp add: findTocRecord_def short_reader_def)

lemma short_name_a:
  "findTocRecord_name short_reader ''a''
     = Some \<lparr>recordId = 8, rec_size = 10, sizeAllocated = 10, rec_offset = 356\<rparr>"
  by (simp add: findTocRecord_name_def findTocRecord_def short_reader_def)

lemma short_path: "short_fs (ffFilePath short_reader) = Some short_ff"
  by (simp add: short_fs_def short_reader_def FfReader_members_def)

lemma short_payload_8: "take 10 (drop 384 short_ff) = ''xyz''"
  by (simp add: short_simps fixture_defs)

lemma short_read_8:
  "getRecordData_record short_fs short_reader
       \<lparr>recordId = 8, rec_size = 10, sizeAllocated = 10, rec_offset = 356\<rparr> data
     = (True, ''xyz'' @ drop 3 (vector_resize 10 data))"
  by (simp add: getRecordData_record_Some [of short_fs short_reader short_ff, OF short_path]
        sizeof_MqrcHeader_def short_payload_8 numeral_3_eq_3)

section \<open>The claims\<close>
subsection \<open>C1: the index arrays after \<^verbatim>\<open>readIndex\<close>\<close>

text \<open>
  C1 does not hold of the code. The \<^verbatim>\<open>-INDEX.OPT\<close> record of \<open>sample_ff\<close> has an
  image entry (id 8, \<open>img\<close>) and an animation entry (id \<open>0xFFFFFFFF\<close>, \<open>anim\<close>);
  \<^verbatim>\<open>readIndex\<close> decodes both and returns, and the index arrays of the decoder are
  empty: the entries were appended to copies of \<^verbatim>\<open>indexData.images\<close> and
  \<^verbatim>\<open>indexData.animations\<close>.
\<close>

theorem readIndex_discards_entries:
  "readIndex sample_reader \<lparr>fileBytes = sample_ff, gpos = 1964, failbit = False\<rparr>
     = Returned (sample_reader, \<lparr>fileBytes = sample_ff, gpos = 2029, failbit = False\<rparr>)
   \<and> indexData sample_reader
       = \<lparr>images = \<lparr>ids = [], names = [], packedInfo = []\<rparr>,
          animations = \<lparr>anim_names = [], anim_packedInfo = []\<rparr>\<rparr>
   \<and> FfReader_ctor sample_fs ''sample.ff'' False = Returned sample_reader"
  by (simp add: sample_index_stage sample_ctor_False)
     (simp add: sample_reader_def FfReader_members_def)
subsection \<open>C2: \<^verbatim>\<open>readImages\<close> and the end of the payload\<close>

lemma length_truncated_ff: "length truncated_ff = 1460"
  by (simp add: truncated_ff_def fixture_defs)

lemmas truncated_ff_drop = arg_cong [OF truncated_ff_def, of "drop k"] for k
lemmas truncated_ff_take = arg_cong [OF truncated_ff_def, of "take n"] for n
lemmas truncated_simps = length_truncated_ff truncated_ff_drop truncated_ff_take

lemma truncated_header:
  "checkFileHeader (open_file truncated_ff)
     = Returned \<lparr>fileBytes = truncated_ff, gpos = 24, failbit = False\<rparr>"
  by (simp add: checkFileHeader_def eval_simps truncated_simps)

lemma truncated_toc_stage:
  "readTableOfContents (FfReader_members ''truncated.ff'')
       \<lparr>fileBytes = truncated_ff, gpos = 24, failbit = False\<rparr>
     = Returned ((FfReader_members ''truncated.ff'')
                   \<lparr>tableOfContents := tableOfContents truncated_reader\<rparr>,
                 \<lparr>fileBytes = truncated_ff, gpos = 64, failbit = False\<rparr>)"
  by (simp add: readTableOfContents_def truncated_reader_def eval_simps truncated_simps)

lemma truncated_names_stage:
  "readNameList ((FfReader_members ''truncated.ff'')
                   \<lparr>tableOfContents := tableOfContents truncated_reader\<rparr>)
       \<lparr>fileBytes = truncated_ff, gpos = 64, failbit = False\<rparr>
     = Returned (truncated_reader, \<lparr>fileBytes = truncated_ff, gpos = 356, failbit = False\<rparr>)"
  by (simp add: readNameList_def truncated_reader_def eval_simps truncated_simps)

lemma truncated_index_stage:
  "readIndex truncated_reader \<lparr>fileBytes = truncated_ff, gpos = 356, failbit = False\<rparr>
     = Returned (truncated_reader, \<lparr>fileBytes = truncated_ff, gpos = 356, failbit = False\<rparr>)"
  by (simp add: readIndex_def truncated_reader_def eval_simps)

lemma truncated_images_stage:
  "readImages truncated_reader \<lparr>fileBytes = truncated_ff, gpos = 356, failbit = False\<rparr>
     = Undefined"
  by (simp add: readImages_def truncated_reader_def readImages_loop.simps readImages_image_def
        eval_simps truncated_simps)

text \<open>
  C2 does not hold of the code. The \<^verbatim>\<open>-IMAGES.OPT\<close> payload of \<open>truncated_ff\<close>
  is a packed image without the last byte of the last part of its frame, of declared length
  1076. \<^verbatim>\<open>readImages\<close> checks no bound (\<^verbatim>\<open>readUint32\<close>, \<^verbatim>\<open>strlen\<close> and
  \<^verbatim>\<open>palette.assign\<close> are given the buffer and an offset) and has no \<^verbatim>\<open>throw\<close>:
  the 4-byte read of \<^verbatim>\<open>partHeight\<close> at offset 1073 of the 1076-byte buffer is made
  past its end, where the claim, and the header's
  \<^verbatim>\<open>Throws std::runtime_error exception in case of errors\<close>, want an error raised.
  Without the images stage the same container is decoded.
\<close>

theorem readImages_truncated_out_of_bounds:
  "readImages truncated_reader \<lparr>fileBytes = truncated_ff, gpos = 356, failbit = False\<rparr>
     = Undefined
   \<and> FfReader_ctor truncated_fs ''truncated.ff'' True = Undefined
   \<and> FfReader_ctor truncated_fs ''truncated.ff'' False = Returned truncated_reader"
  by (simp add: FfReader_ctor_def truncated_fs_def truncated_header truncated_toc_stage
        truncated_names_stage truncated_index_stage truncated_images_stage)
subsection \<open>C3: the result of \<^verbatim>\<open>getRecordData\<close>\<close>

text \<open>
  C3, as the code has it. A lookup miss, by id or by name, returns \<open>false\<close> and leaves
  the buffer as it was. For a resolved record, fetched by id or by name,
  \<^verbatim>\<open>getRecordData\<close> returns \<open>false\<close> only when the file cannot be opened;
  otherwise it resizes the buffer to \<open>entry.size\<close>, reads at \<open>entry.offset + 28\<close> as
  many of the \<open>entry.size\<close> bytes as the file holds and returns \<open>true\<close>, whether the
  read was complete or not. When the file holds them all, the buffer is exactly those
  \<open>entry.size\<close> bytes.
\<close>

theorem getRecordData_outcome:
  "(findTocRecord r rid = None \<longrightarrow> getRecordData_id fs r rid data = (False, data))
   \<and> (findTocRecord_name r recordName = None
        \<longrightarrow> getRecordData_name fs r recordName data = (False, data))
   \<and> (findTocRecord r rid = Some entry \<longrightarrow> fs (ffFilePath r) = None
        \<longrightarrow> getRecordData_id fs r rid data = (False, data))
   \<and> (findTocRecord_name r recordName = Some entry \<longrightarrow> fs (ffFilePath r) = None
        \<longrightarrow> getRecordData_name fs r recordName data = (False, data))
   \<and> (findTocRecord r rid = Some entry \<longrightarrow> fs (ffFilePath r) = Some bytes
        \<longrightarrow> getRecordData_id fs r rid data =
             (let got = take (unat (rec_size entry))
                          (drop (unat (rec_offset entry) + sizeof_MqrcHeader) bytes)
              in (True, got @ drop (length got) (vector_resize (unat (rec_size entry)) data))))
   \<and> (findTocRecord_name r recordName = Some entry \<longrightarrow> fs (ffFilePath r) = Some bytes
        \<longrightarrow> getRecordData_name fs r recordName data =
             (let got = take (unat (rec_size entry))
                          (drop (unat (rec_offset entry) + sizeof_MqrcHeader) bytes)
              in (True, got @ drop (length got) (vector_resize (unat (rec_size entry)) data))))
   \<and> (findTocRecord r rid = Some entry \<longrightarrow> fs (ffFilePath r) = Some bytes
        \<longrightarrow> unat (rec_offset entry) + sizeof_MqrcHeader + unat (rec_size entry) \<le> length bytes
        \<longrightarrow> getRecordData_id fs r rid data =
             (True, take (unat (rec_size entry))
                      (drop (unat (rec_offset entry) + sizeof_MqrcHeader) bytes)))
   \<and> (findTocRecord_name r recordName = Some entry \<longrightarrow> fs (ffFilePath r) = Some bytes
        \<longrightarrow> unat (rec_offset entry) + sizeof_MqrcHeader + unat (rec_size entry) \<le> length bytes
        \<longrightarrow> getRecordData_name fs r recordName data =
             (True, take (unat (rec_size entry))
                      (drop (unat (rec_offset entry) + sizeof_MqrcHeader) bytes)))"
proof (intro conjI impI)
  assume "findTocRecord r rid = None"
  then show "getRecordData_id fs r rid data = (False, data)"
    by (simp add: getRecordData_id_def)
next
  assume "findTocRecord_name r recordName = None"
  then show "getRecordData_name fs r recordName data = (False, data)"
    by (simp add: getRecordData_name_def)
next
  assume "findTocRecord r rid = Some entry" and "fs (ffFilePath r) = None"
  then show "getRecordData_id fs r rid data = (False, data)"
    by (simp add: getRecordData_id_def getRecordData_record_None)
next
  assume "findTocRecord_name r recordName = Some entry" and "fs (ffFilePath r) = None"
  then show "getRecordData_name fs r recordName data = (False, data)"
    by (simp add: getRecordData_name_def getRecordData_record_None)
next
  assume "findTocRecord r rid = Some entry" and "fs (ffFilePath r) = Some bytes"
  then show "getRecordData_id fs r rid data =
      (let got = take (unat (rec_size entry))
                   (drop (unat (rec_offset entry) + sizeof_MqrcHeader) bytes)
       in (True, got @ drop (length got) (vector_resize (unat (rec_size entry)) data)))"
    by (simp add: getRecordData_id_def getRecordData_record_Some)
next
  assume "findTocRecord_name r recordName = Some entry" and "fs (ffFilePath r) = Some bytes"
  then show "getRecordData_name fs r recordName data =
      (let got = take (unat (rec_size entry))
                   (drop (unat (rec_offset entry) + sizeof_MqrcHeader) bytes)
       in (True, got @ drop (length got) (vector_resize (unat (rec_size entry)) data)))"
    by (simp add: getRecordData_name_def getRecordData_record_Some)
next
  assume "findTocRecord r rid = Some entry" and b: "fs (ffFilePath r) = Some bytes"
    and inb: "unat (rec_offset entry) + sizeof_MqrcHeader + unat (rec_size entry) \<le> length bytes"
  then show "getRecordData_id fs r rid data =
      (True, take (unat (rec_size entry))
               (drop (unat (rec_offset entry) + sizeof_MqrcHeader) bytes))"
    by (simp add: getRecordData_id_def getRecordData_record_full [of fs r bytes, OF b inb])
next
  assume "findTocRecord_name r recordName = Some entry" and b: "fs (ffFilePath r) = Some bytes"
    and inb: "unat (rec_offset entry) + sizeof_MqrcHeader + unat (rec_size entry) \<le> length bytes"
  then show "getRecordData_name fs r recordName data =
      (True, take (unat (rec_size entry))
               (drop (unat (rec_offset entry) + sizeof_MqrcHeader) bytes))"
    by (simp add: getRecordData_name_def getRecordData_record_full [of fs r bytes, OF b inb])
qed

theorem getRecordData_outcome_witness:
  "findTocRecord sample_reader 99 = None
   \<and> getRecordData_id sample_fs sample_reader 99 ''??'' = (False, ''??'')
   \<and> findTocRecord_name sample_reader ''zz'' = None
   \<and> getRecordData_name sample_fs sample_reader ''zz'' ''??'' = (False, ''??'')
   \<and> findTocRecord sample_reader 8
       = Some \<lparr>recordId = 8, rec_size = 3, sizeAllocated = 3, rec_offset = 3165\<rparr>
   \<and> findTocRecord_name sample_reader ''a''
       = Some \<lparr>recordId = 8, rec_size = 3, sizeAllocated = 3, rec_offset = 3165\<rparr>
   \<and> getRecordData_id (\<lambda>path. None) sample_reader 8 ''??'' = (False, ''??'')
   \<and> getRecordData_name (\<lambda>path. None) sample_reader ''a'' ''??'' = (False, ''??'')
   \<and> sample_fs (ffFilePath sample_reader) = Some sample_ff
   \<and> 3165 + 28 + 3 \<le> length sample_ff
   \<and> getRecordData_id sample_fs sample_reader 8 ''??'' = (True, ''xyz'')
   \<and> getRecordData_name sample_fs sample_reader ''a'' ''??'' = (True, ''xyz'')
   \<and> findTocRecord short_reader 8
       = Some \<lparr>recordId = 8, rec_size = 10, sizeAllocated = 10, rec_offset = 356\<rparr>
   \<and> findTocRecord_name short_reader ''a''
       = Some \<lparr>recordId = 8, rec_size = 10, sizeAllocated = 10, rec_offset = 356\<rparr>
   \<and> short_fs (ffFilePath short_reader) = Some short_ff
   \<and> getRecordData_id short_fs short_reader 8 ''ABCDEFGHIJKL'' = (True, ''xyzDEFGHIJ'')
   \<and> getRecordData_name short_fs short_reader ''a'' ''ABCDEFGHIJKL'' = (True, ''xyzDEFGHIJ'')"
proof -
  let ?e = "\<lparr>recordId = 8, rec_size = 3, sizeAllocated = 3, rec_offset = 3165\<rparr>"
  let ?s = "\<lparr>recordId = 8, rec_size = 10, sizeAllocated = 10, rec_offset = 356\<rparr>"
  have miss: "findTocRecord sample_reader 99 = None"
    by (simp add: findTocRecord_def sample_reader_def sample_toc_def)
  have miss_name: "findTocRecord_name sample_reader ''zz'' = None"
    by (simp add: findTocRecord_name_def sample_reader_def sample_names_def)
  from getRecordData_outcome [of sample_reader 99 sample_fs "''??''" "''zz''" ?e sample_ff]
    miss miss_name
  have 1: "getRecordData_id sample_fs sample_reader 99 ''??'' = (False, ''??'')"
    and 2: "getRecordData_name sample_fs sample_reader ''zz'' ''??'' = (False, ''??'')"
    by blast+
  from getRecordData_outcome [of sample_reader 8 "\<lambda>path. None" "''??''" "''a''" ?e sample_ff]
    sample_toc_8 sample_name_a
  have 3: "getRecordData_id (\<lambda>path. None) sample_reader 8 ''??'' = (False, ''??'')"
    and 4: "getRecordData_name (\<lambda>path. None) sample_reader ''a'' ''??'' = (False, ''??'')"
    by simp_all
  from getRecordData_outcome [of sample_reader 8 sample_fs "''??''" "''a''" ?e sample_ff]
    sample_toc_8 sample_name_a sample_path sample_payload_8
  have 5: "getRecordData_id sample_fs sample_reader 8 ''??'' = (True, ''xyz'')"
    and 6: "getRecordData_name sample_fs sample_reader ''a'' ''??'' = (True, ''xyz'')"
    by (simp_all add: sizeof_MqrcHeader_def length_sample_ff length_vector_resize)
  from getRecordData_outcome [of short_reader 8 short_fs "''ABCDEFGHIJKL''" "''a''" ?s short_ff]
    short_toc_8 short_name_a short_path short_payload_8
  have 7: "getRecordData_id short_fs short_reader 8 ''ABCDEFGHIJKL'' = (True, ''xyzDEFGHIJ'')"
    and 8: "getRecordData_name short_fs short_reader ''a'' ''ABCDEFGHIJKL''
              = (True, ''xyzDEFGHIJ'')"
    by (simp_all add: sizeof_MqrcHeader_def length_short_ff vector_resize_def)
  from miss miss_name sample_toc_8 sample_name_a sample_path short_toc_8 short_name_a short_path
    1 2 3 4 5 6 7 8
  show ?thesis by (simp add: length_sample_ff)
qed

text \<open>
  The claim as stated fails on \<open>short_ff\<close>: the constructor accepts the container, the
  ToC entry of record 8 declares 10 bytes, the file ends after 3 of them, and
  \<^verbatim>\<open>getRecordData\<close>, by id and by name, reports success with the 3 bytes and 7
  zeros.
\<close>

theorem getRecordData_short_read_counterexample:
  "FfReader_ctor short_fs ''short.ff'' True = Returned short_reader
   \<and> findTocRecord short_reader 8
       = Some \<lparr>recordId = 8, rec_size = 10, sizeAllocated = 10, rec_offset = 356\<rparr>
   \<and> length short_ff = 387
   \<and> getRecordData_id short_fs short_reader 8 [] = (True, ''xyz'' @ replicate 7 (CHR 0x00))
   \<and> getRecordData_name short_fs short_reader ''a'' []
       = (True, ''xyz'' @ replicate 7 (CHR 0x00))"
  by (simp add: short_ctor short_toc_8 short_name_a length_short_ff getRecordData_id_def
        getRecordData_name_def short_read_8 vector_resize_def)
subsection \<open>C4: the name table after \<^verbatim>\<open>readNameList\<close>\<close>











subsection \<open>C5: record ids in the table of contents\<close>

lemma toc_loop_sorted:
  "readTableOfContents_loop n toc file = Returned (toc', file') \<Longrightarrow>
     sorted_wrt (<) (map fst toc) \<Longrightarrow> sorted_wrt (<) (map fst toc')"
proof (induction n arbitrary: toc "file")
  case 0
  then show ?case by simp
next
  case (Suc n)
  from Suc.prems(1) obtain k v f1 where
    rest: "readTableOfContents_loop n (map_assign k v toc) f1 = Returned (toc', file')"
    by (auto simp: Let_def split: prod.splits option.splits if_splits)
  from Suc.prems(2) have "sorted_wrt (<) (map fst (map_assign k v toc))"
    by (rule sorted_map_assign)
  from Suc.IH [OF rest this] show ?case .
qed

lemma checkFileHeader_Returned:
  assumes "checkFileHeader file = Returned file'"
  shows "\<exists>got. stream_read sizeof_MqdbHeader file = (got, file')"
  using assms
  by (auto simp: checkFileHeader_def split: prod.splits option.splits if_splits)

lemma seekg_good:
  "\<not> failbit (seekg p file) \<Longrightarrow> \<not> failbit file \<and> seekg p file = file\<lparr>gpos := p\<rparr>"
  by (auto simp: seekg_def split: if_splits)

lemma ctor_toc:
  assumes ctor: "FfReader_ctor fs path readImageData = Returned r"
    and path: "fs path = Some bytes"
  shows "toc_position bytes + 4 + sizeof_TocRecord * toc_count bytes \<le> length bytes"
    and "distinct (map recordId (toc_of_file bytes))"
    and "map_of (tableOfContents r) = map_of (toc_pairs (toc_of_file bytes))"
    and "length (tableOfContents r) = toc_count bytes"
    and "sorted_wrt (<) (map fst (tableOfContents r))"
proof -
  from ctor_stages [OF ctor] path obtain file1 r1 file2 r2 file3 r3 file4 where
    s1: "checkFileHeader (open_file bytes) = Returned file1"
    and s2: "readTableOfContents (FfReader_members path) file1 = Returned (r1, file2)"
    and s3: "readNameList r1 file2 = Returned (r2, file3)"
    and s4: "readIndex r2 file3 = Returned (r3, file4)"
    and s5: "if readImageData then \<exists>file5. readImages r3 file4 = Returned (r, file5)
             else r = r3"
    by auto
  from readNameList_fields [OF s3] have r2: "tableOfContents r2 = tableOfContents r1"
    and nl: "findTocRecord r1 NameList \<noteq> None" by auto
  from readIndex_fields [OF s4] have r3: "r3 = r2" .
  from s5 have r: "tableOfContents r = tableOfContents r3"
    by (auto split: if_splits dest: readImages_fields)
  from r r3 r2 have same: "tableOfContents r = tableOfContents r1" by simp
  from s2 obtain tocOffset fa entriesTotal fb toc where
    a: "readUint32_file file1 = (tocOffset, fa)"
    and b: "readUint32_file (seekg (unat tocOffset) fa) = (entriesTotal, fb)"
    and c: "readTableOfContents_loop (unat entriesTotal) [] fb = Returned (toc, file2)"
    and r1: "tableOfContents r1 = toc"
    by (auto simp: readTableOfContents_def and_then_Returned Let_def FfReader_members_def
             split: prod.splits)
  from nl r1 have "toc \<noteq> []" by (auto simp: findTocRecord_def)
  with c have pos: "0 < unat entriesTotal" by (cases "unat entriesTotal") auto
  note loop = toc_loop_Returned [OF c pos]
  from loop have fb: "\<not> failbit fb" by simp
  from readUint32_file_good [OF b fb]
  have sk: "\<not> failbit (seekg (unat tocOffset) fa)"
    and cnt: "entriesTotal = uint32_of_bytes (take 4 (drop (gpos (seekg (unat tocOffset) fa))
                (fileBytes (seekg (unat tocOffset) fa))))"
    and fb_eq: "fb = (seekg (unat tocOffset) fa)\<lparr>gpos := gpos (seekg (unat tocOffset) fa) + 4\<rparr>"
    by simp_all
  from seekg_good [OF sk] have fa: "\<not> failbit fa"
    and sk_eq: "seekg (unat tocOffset) fa = fa\<lparr>gpos := unat tocOffset\<rparr>" by simp_all
  from readUint32_file_good [OF a fa]
  have f1: "\<not> failbit file1"
    and off: "tocOffset = uint32_of_bytes (take 4 (drop (gpos file1) (fileBytes file1)))"
    and fa_eq: "fa = file1\<lparr>gpos := gpos file1 + 4\<rparr>"
    by simp_all
  from checkFileHeader_Returned [OF s1] obtain got where
    hd: "stream_read sizeof_MqdbHeader (open_file bytes) = (got, file1)" by blast
  from stream_read_good [OF hd f1]
  have file1: "file1 = \<lparr>fileBytes = bytes, gpos = sizeof_MqdbHeader, failbit = False\<rparr>"
    by (simp add: open_file_def sizeof_MqdbHeader_def)
  from off file1 have tp: "unat tocOffset = toc_position bytes"
    by (simp add: toc_position_def)
  from cnt sk_eq fa_eq file1 tp have tc: "unat entriesTotal = toc_count bytes"
    by (simp add: toc_count_def)
  from fb_eq sk_eq fa_eq file1 tp
  have fb_is: "fb = \<lparr>fileBytes = bytes, gpos = toc_position bytes + 4, failbit = False\<rparr>"
    by simp
  from loop show "toc_position bytes + 4 + sizeof_TocRecord * toc_count bytes \<le> length bytes"
    by (simp add: fb_is tc)
  from loop show "distinct (map recordId (toc_of_file bytes))"
    by (simp add: fb_is tc toc_of_file_def)
  from loop show "map_of (tableOfContents r) = map_of (toc_pairs (toc_of_file bytes))"
    by (simp add: fb_is tc toc_of_file_def same r1)
  from loop show "length (tableOfContents r) = toc_count bytes"
    by (simp add: tc same r1)
  from toc_loop_sorted [OF c] show "sorted_wrt (<) (map fst (tableOfContents r))"
    by (simp add: same r1)
qed

lemma ctor_duplicate:
  assumes path: "fs path = Some bytes"
    and len: "sizeof_MqdbHeader + 4 \<le> length bytes"
    and sig: "take 4 bytes = ''MQDB''"
    and ver: "uint32_of_bytes (take 4 (drop 8 bytes)) = 9"
    and ij: "i < j" "j < toc_count bytes"
    and inb: "toc_position bytes + 4 + sizeof_TocRecord * Suc j \<le> length bytes"
    and dup: "recordId (toc_of_file bytes ! i) = recordId (toc_of_file bytes ! j)"
  shows "FfReader_ctor fs path readImageData
           = Threw ''MQDB ToC contains records with non-unique ids''"
proof -
  let ?f1 = "\<lparr>fileBytes = bytes, gpos = sizeof_MqdbHeader, failbit = False\<rparr>"
  let ?fb = "\<lparr>fileBytes = bytes, gpos = toc_position bytes + 4, failbit = False\<rparr>"
  from len have "sizeof_MqdbHeader \<le> length bytes" by simp
  from checkFileHeader_open [OF this] sig ver
  have s1: "checkFileHeader (open_file bytes) = Returned ?f1"
    by (simp add: mqdbFileVersion_def)
  from len have a: "readUint32_file ?f1
      = (uint32_of_bytes (take 4 (drop sizeof_MqdbHeader bytes)),
         \<lparr>fileBytes = bytes, gpos = sizeof_MqdbHeader + 4, failbit = False\<rparr>)"
    by (simp add: readUint32_file_within)
  from inb have b: "readUint32_file
        \<lparr>fileBytes = bytes, gpos = toc_position bytes, failbit = False\<rparr>
      = (uint32_of_bytes (take 4 (drop (toc_position bytes) bytes)), ?fb)"
    by (simp add: readUint32_file_within)
  have "readTableOfContents_loop (toc_count bytes) [] ?fb
      = Threw ''MQDB ToC contains records with non-unique ids''"
    using ij inb dup
    by (intro toc_loop_duplicate [of ?fb i j]) (simp_all add: toc_of_file_def)
  then have "readTableOfContents (FfReader_members path) ?f1
      = Threw ''MQDB ToC contains records with non-unique ids''"
    by (simp add: readTableOfContents_def a seekg_def b FfReader_members_def
          toc_position_def [symmetric] toc_count_def [symmetric])
  with path s1 show ?thesis by (simp add: FfReader_ctor_def)
qed

text \<open>
  C5. The table of contents of a file is the list \<open>toc_of_file\<close>. When the header is
  valid and two entries of the table that lie in the file have the same record id, the
  constructor throws \<^verbatim>\<open>"MQDB ToC contains records with non-unique ids"\<close>. When the
  constructor returns, the whole table lies in the file, its record ids are pairwise
  distinct, the keys of \<^verbatim>\<open>tableOfContents\<close> are unique, and the map has as many
  entries as the table, each entry of the table found under its own id: none was skipped
  or stored under another id. (A \<^verbatim>\<open>std::map\<close> has no order of insertion; it is
  iterated by ascending id.)
\<close>

theorem duplicate_record_id:
  assumes "fs path = Some bytes"
  shows "(sizeof_MqdbHeader + 4 \<le> length bytes \<and> take 4 bytes = ''MQDB''
            \<and> uint32_of_bytes (take 4 (drop 8 bytes)) = 9
            \<and> i < j \<and> j < toc_count bytes
            \<and> toc_position bytes + 4 + sizeof_TocRecord * Suc j \<le> length bytes
            \<and> recordId (toc_of_file bytes ! i) = recordId (toc_of_file bytes ! j)
          \<longrightarrow> FfReader_ctor fs path readImageData
                = Threw ''MQDB ToC contains records with non-unique ids'')
         \<and> (FfReader_ctor fs path readImageData = Returned r
          \<longrightarrow> toc_position bytes + 4 + sizeof_TocRecord * toc_count bytes \<le> length bytes
              \<and> distinct (map recordId (toc_of_file bytes))
              \<and> distinct (map fst (tableOfContents r))
              \<and> length (tableOfContents r) = toc_count bytes
              \<and> (\<forall>e \<in> set (toc_of_file bytes). findTocRecord r (recordId e) = Some e))"
proof (intro conjI impI)
  assume "sizeof_MqdbHeader + 4 \<le> length bytes \<and> take 4 bytes = ''MQDB''
            \<and> uint32_of_bytes (take 4 (drop 8 bytes)) = 9
            \<and> i < j \<and> j < toc_count bytes
            \<and> toc_position bytes + 4 + sizeof_TocRecord * Suc j \<le> length bytes
            \<and> recordId (toc_of_file bytes ! i) = recordId (toc_of_file bytes ! j)"
  with assms show "FfReader_ctor fs path readImageData
                = Threw ''MQDB ToC contains records with non-unique ids''"
    by (intro ctor_duplicate [of fs path bytes i j]) simp_all
next
  assume ctor: "FfReader_ctor fs path readImageData = Returned r"
  note t = ctor_toc [OF ctor assms]
  from t(1) show "toc_position bytes + 4 + sizeof_TocRecord * toc_count bytes \<le> length bytes" .
  from t(2) show "distinct (map recordId (toc_of_file bytes))" .
  from t(5) show "distinct (map fst (tableOfContents r))"
    by (simp add: strict_sorted_iff)
  from t(4) show "length (tableOfContents r) = toc_count bytes" .
  from t(2) have "distinct (map fst (toc_pairs (toc_of_file bytes)))"
    by (simp add: toc_pairs_def comp_def)
  then show "\<forall>e \<in> set (toc_of_file bytes). findTocRecord r (recordId e) = Some e"
    by (auto simp: findTocRecord_def t(3) toc_pairs_def)
qed

lemma length_duplicate_ff: "length duplicate_ff = 112"
  by (simp add: duplicate_ff_def fixture_defs)

lemmas duplicate_ff_drop = arg_cong [OF duplicate_ff_def, of "drop k"] for k
lemmas duplicate_ff_take = arg_cong [OF duplicate_ff_def, of "take n"] for n
lemmas duplicate_simps = length_duplicate_ff duplicate_ff_drop duplicate_ff_take

lemma sample_toc_of_file: "toc_of_file sample_ff = map snd sample_toc"
  by (simp add: toc_of_file_def toc_position_def toc_count_def tocEntries_numeral
        sample_toc_def eval_simps sample_simps)

theorem duplicate_record_id_witness:
  "duplicate_fs ''duplicate.ff'' = Some duplicate_ff
   \<and> sizeof_MqdbHeader + 4 \<le> length duplicate_ff \<and> take 4 duplicate_ff = ''MQDB''
   \<and> uint32_of_bytes (take 4 (drop 8 duplicate_ff)) = 9
   \<and> (0::nat) < 2 \<and> 2 < toc_count duplicate_ff
   \<and> toc_position duplicate_ff + 4 + sizeof_TocRecord * Suc 2 \<le> length duplicate_ff
   \<and> recordId (toc_of_file duplicate_ff ! 0) = recordId (toc_of_file duplicate_ff ! 2)
   \<and> FfReader_ctor duplicate_fs ''duplicate.ff'' True
       = Threw ''MQDB ToC contains records with non-unique ids''
   \<and> sample_fs ''sample.ff'' = Some sample_ff
   \<and> FfReader_ctor sample_fs ''sample.ff'' True
       = Returned (sample_reader\<lparr>packedImages := [(0, sample_image)]\<rparr>)
   \<and> toc_of_file sample_ff = map snd sample_toc
   \<and> distinct (map recordId (toc_of_file sample_ff))
   \<and> length (tableOfContents (sample_reader\<lparr>packedImages := [(0, sample_image)]\<rparr>)) = 5"
proof -
  have p: "duplicate_fs ''duplicate.ff'' = Some duplicate_ff"
    by (simp add: duplicate_fs_def)
  have tp: "toc_position duplicate_ff = 28"
    by (simp add: toc_position_def eval_simps duplicate_simps)
  have tc: "toc_count duplicate_ff = 3"
    by (simp add: toc_count_def tp eval_simps duplicate_simps)
  have ids: "map recordId (toc_of_file duplicate_ff) = [2, 5, 2]"
    by (simp add: toc_of_file_def tp tc tocEntries_numeral eval_simps duplicate_simps)
  have len: "length (toc_of_file duplicate_ff) = 3"
    by (simp add: toc_of_file_def tc)
  from ids len have dup: "recordId (toc_of_file duplicate_ff ! 0)
      = recordId (toc_of_file duplicate_ff ! 2)"
    using nth_map [of 0 "toc_of_file duplicate_ff" recordId]
      nth_map [of 2 "toc_of_file duplicate_ff" recordId] by simp
  have hd: "take 4 duplicate_ff = ''MQDB''"
    "uint32_of_bytes (take 4 (drop 8 duplicate_ff)) = 9"
    by (simp_all add: duplicate_simps fixture_defs)
  have sz: "sizeof_MqdbHeader + 4 \<le> length duplicate_ff"
    "toc_position duplicate_ff + 4 + sizeof_TocRecord * Suc 2 \<le> length duplicate_ff"
    by (simp_all add: tp length_duplicate_ff sizeof_MqdbHeader_def sizeof_TocRecord_def)
  have sp: "sample_fs ''sample.ff'' = Some sample_ff"
    by (simp add: sample_fs_def)
  from duplicate_record_id [of duplicate_fs "''duplicate.ff''" duplicate_ff 0 2 True, OF p]
    p tc dup hd sz
  have 1: "FfReader_ctor duplicate_fs ''duplicate.ff'' True
       = Threw ''MQDB ToC contains records with non-unique ids''"
    by simp
  from duplicate_record_id [of sample_fs "''sample.ff''" sample_ff 0 0 True
      "sample_reader\<lparr>packedImages := [(0, sample_image)]\<rparr>", OF sp] sample_ctor_True
  have 2: "distinct (map recordId (toc_of_file sample_ff))"
    "length (tableOfContents (sample_reader\<lparr>packedImages := [(0, sample_image)]\<rparr>))
       = toc_count sample_ff"
    by simp_all
  have "toc_count sample_ff = 5"
    by (simp add: toc_count_def toc_position_def eval_simps sample_simps)
  with 1 2 p tc dup hd sz sp sample_ctor_True sample_toc_of_file show ?thesis by simp
qed
subsection \<open>C6: the stages of the constructor\<close>

text \<open>
  C6, as the code has it. Every decoder that the constructor returns has gone through
  header validation, ToC parsing, name-list resolution and index parsing, in that order,
  each on the stream as the stage before left it; images parsing follows them only when
  the argument \<^verbatim>\<open>readImageData\<close> is true (its default), and is left out when it is
  false.
\<close>

theorem constructor_stages:
  assumes "FfReader_ctor fs path readImageData = Returned r"
  shows "\<exists>bytes file1 r1 file2 r2 file3 r3 file4.
      fs path = Some bytes
      \<and> checkFileHeader (open_file bytes) = Returned file1
      \<and> readTableOfContents (FfReader_members path) file1 = Returned (r1, file2)
      \<and> readNameList r1 file2 = Returned (r2, file3)
      \<and> readIndex r2 file3 = Returned (r3, file4)
      \<and> (if readImageData then \<exists>file5. readImages r3 file4 = Returned (r, file5) else r = r3)"
  using assms by (rule ctor_stages)

theorem constructor_stages_witness:
  "FfReader_ctor sample_fs ''sample.ff'' True
     = Returned (sample_reader\<lparr>packedImages := [(0, sample_image)]\<rparr>)
   \<and> (\<exists>bytes file1 r1 file2 r2 file3 r3 file4.
      sample_fs ''sample.ff'' = Some bytes
      \<and> checkFileHeader (open_file bytes) = Returned file1
      \<and> readTableOfContents (FfReader_members ''sample.ff'') file1 = Returned (r1, file2)
      \<and> readNameList r1 file2 = Returned (r2, file3)
      \<and> readIndex r2 file3 = Returned (r3, file4)
      \<and> (\<exists>file5. readImages r3 file4
             = Returned (sample_reader\<lparr>packedImages := [(0, sample_image)]\<rparr>, file5)))"
  using constructor_stages [OF sample_ctor_True] sample_ctor_True by simp

text \<open>
  The claim as stated fails on \<open>sample_ff\<close> with \<^verbatim>\<open>readImageData = false\<close>: the
  constructor returns a decoder whose \<^verbatim>\<open>packedImages\<close> is empty, although the
  container has an \<^verbatim>\<open>-IMAGES.OPT\<close> record from which the images stage makes one
  packed image.
\<close>

theorem constructor_skips_images_counterexample:
  "FfReader_ctor sample_fs ''sample.ff'' False = Returned sample_reader
   \<and> packedImages sample_reader = []
   \<and> readImages sample_reader \<lparr>fileBytes = sample_ff, gpos = 2029, failbit = False\<rparr>
       = Returned (sample_reader\<lparr>packedImages := [(0, sample_image)]\<rparr>,
                   \<lparr>fileBytes = sample_ff, gpos = 3134, failbit = False\<rparr>)"
  by (simp add: sample_ctor_False sample_images_stage)
     (simp add: sample_reader_def FfReader_members_def)
subsection \<open>C7: a record fetched by id and by name\<close>

text \<open>
  C7, as the code has it. Let the name table map a name to a record id that the ToC has.
  Fetching the record by that name and fetching it by the id are the same read of the one
  ToC entry: from the same buffer they give the same result. When the file opens and
  holds all \<open>entry.size\<close> bytes of the record at \<open>entry.offset + 28\<close>, the two
  fetches, each into a buffer of its own, whatever it held, both return \<open>true\<close> with the
  same byte sequence, those \<open>entry.size\<close> bytes. (After a short read a buffer keeps,
  behind the bytes delivered, what it held before the call, so that two buffers can
  differ.)
\<close>

theorem getRecordData_name_id:
  assumes "map_of (recordNames r) recordName = Some rid"
    and "findTocRecord r rid = Some entry"
  shows "getRecordData_name fs r recordName data = getRecordData_id fs r rid data
         \<and> (fs (ffFilePath r) = Some bytes
              \<longrightarrow> unat (rec_offset entry) + sizeof_MqrcHeader + unat (rec_size entry)
                    \<le> length bytes
              \<longrightarrow> getRecordData_name fs r recordName data1
                    = (True, take (unat (rec_size entry))
                               (drop (unat (rec_offset entry) + sizeof_MqrcHeader) bytes))
                  \<and> getRecordData_id fs r rid data2
                    = (True, take (unat (rec_size entry))
                               (drop (unat (rec_offset entry) + sizeof_MqrcHeader) bytes)))"
proof (intro conjI impI)
  from assms show "getRecordData_name fs r recordName data = getRecordData_id fs r rid data"
    by (simp add: getRecordData_name_def getRecordData_id_def findTocRecord_name_def)
next
  assume b: "fs (ffFilePath r) = Some bytes"
    and inb: "unat (rec_offset entry) + sizeof_MqrcHeader + unat (rec_size entry) \<le> length bytes"
  from assms show "getRecordData_name fs r recordName data1
      = (True, take (unat (rec_size entry))
                 (drop (unat (rec_offset entry) + sizeof_MqrcHeader) bytes))"
    by (simp add: getRecordData_name_def findTocRecord_name_def
          getRecordData_record_full [of fs r bytes, OF b inb])
  from assms show "getRecordData_id fs r rid data2
      = (True, take (unat (rec_size entry))
                 (drop (unat (rec_offset entry) + sizeof_MqrcHeader) bytes))"
    by (simp add: getRecordData_id_def getRecordData_record_full [of fs r bytes, OF b inb])
qed

theorem getRecordData_name_id_witness:
  "map_of (recordNames sample_reader) ''a'' = Some 8
   \<and> findTocRecord sample_reader 8
       = Some \<lparr>recordId = 8, rec_size = 3, sizeAllocated = 3, rec_offset = 3165\<rparr>
   \<and> sample_fs (ffFilePath sample_reader) = Some sample_ff
   \<and> 3165 + 28 + 3 \<le> length sample_ff
   \<and> getRecordData_name sample_fs sample_reader ''a'' ''ABCDEFGHIJKL'' = (True, ''xyz'')
   \<and> getRecordData_id sample_fs sample_reader 8 [] = (True, ''xyz'')"
proof -
  have n: "map_of (recordNames sample_reader) ''a'' = Some 8"
    by (simp add: sample_reader_def sample_names_def)
  from getRecordData_name_id [of sample_reader "''a''" 8
      "\<lparr>recordId = 8, rec_size = 3, sizeAllocated = 3, rec_offset = 3165\<rparr>"
      sample_fs "[]" sample_ff "''ABCDEFGHIJKL''" "[]", OF n sample_toc_8]
    n sample_toc_8 sample_path sample_payload_8
  show ?thesis by (simp add: sizeof_MqrcHeader_def length_sample_ff)
qed

text \<open>
  The claim as stated fails on \<open>short_ff\<close>, where the name \<open>a\<close> is retained for
  record 8 and the file holds 3 of the 10 bytes that the ToC entry declares: fetched by
  name into a buffer that held \<open>ABCDEFGHIJKL\<close> and by id into an empty buffer, both
  calls return \<open>true\<close> and the two byte sequences differ.
\<close>

theorem getRecordData_name_id_counterexample:
  "FfReader_ctor short_fs ''short.ff'' True = Returned short_reader
   \<and> map_of (recordNames short_reader) ''a'' = Some 8
   \<and> findTocRecord short_reader 8
       = Some \<lparr>recordId = 8, rec_size = 10, sizeAllocated = 10, rec_offset = 356\<rparr>
   \<and> getRecordData_name short_fs short_reader ''a'' ''ABCDEFGHIJKL'' = (True, ''xyzDEFGHIJ'')
   \<and> getRecordData_id short_fs short_reader 8 [] = (True, ''xyz'' @ replicate 7 (CHR 0x00))
   \<and> ''xyzDEFGHIJ'' \<noteq> ''xyz'' @ replicate 7 (CHR 0x00)"
proof -
  have n: "map_of (recordNames short_reader) ''a'' = Some 8"
    by (simp add: short_reader_def)
  have differ: "''xyzDEFGHIJ'' \<noteq> ''xyz'' @ replicate 7 (CHR 0x00)"
    by (simp add: numeral_eq_Suc)
  have by_name: "getRecordData_name short_fs short_reader ''a'' ''ABCDEFGHIJKL''
      = (True, ''xyzDEFGHIJ'')"
    by (simp add: short_name_a getRecordData_name_def short_read_8 vector_resize_def)
  have by_id: "getRecordData_id short_fs short_reader 8 []
      = (True, ''xyz'' @ replicate 7 (CHR 0x00))"
    by (simp add: short_toc_8 getRecordData_id_def short_read_8 vector_resize_def)
  from short_ctor n short_toc_8 by_name by_id differ show ?thesis
    by (simp only: simp_thms)
qed
subsection \<open>C8: the header\<close>

text \<open>
  C8. When the file opens and has the 24 bytes of a header, a signature other than the four
  characters \<open>MQDB\<close> makes the constructor throw \<^verbatim>\<open>"Not a MQDB file"\<close>, and the right
  signature with a version field other than 9 makes it throw
  \<^verbatim>\<open>"Wrong MQDB file version"\<close>; in both cases no decoder is returned.
\<close>

theorem header_rejected:
  assumes "fs path = Some bytes" and "sizeof_MqdbHeader \<le> length bytes"
  shows "(take 4 bytes \<noteq> ''MQDB''
            \<longrightarrow> FfReader_ctor fs path readImageData = Threw ''Not a MQDB file'')
         \<and> (take 4 bytes = ''MQDB'' \<longrightarrow> uint32_of_bytes (take 4 (drop 8 bytes)) \<noteq> 9
            \<longrightarrow> FfReader_ctor fs path readImageData = Threw ''Wrong MQDB file version'')"
  using assms(1) checkFileHeader_open [OF assms(2)]
  by (simp add: FfReader_ctor_def mqdbFileVersion_def)

theorem header_rejected_witness:
  "bad_fs ''signature.ff'' = Some bad_signature_ff
   \<and> sizeof_MqdbHeader \<le> length bad_signature_ff
   \<and> take 4 bad_signature_ff \<noteq> ''MQDB''
   \<and> FfReader_ctor bad_fs ''signature.ff'' True = Threw ''Not a MQDB file''
   \<and> bad_fs ''version.ff'' = Some bad_version_ff
   \<and> sizeof_MqdbHeader \<le> length bad_version_ff
   \<and> take 4 bad_version_ff = ''MQDB''
   \<and> uint32_of_bytes (take 4 (drop 8 bad_version_ff)) \<noteq> 9
   \<and> FfReader_ctor bad_fs ''version.ff'' True = Threw ''Wrong MQDB file version''"
proof -
  have s: "bad_fs ''signature.ff'' = Some bad_signature_ff"
    and v: "bad_fs ''version.ff'' = Some bad_version_ff"
    by (simp_all add: bad_fs_def)
  have ls: "sizeof_MqdbHeader \<le> length bad_signature_ff"
    and lv: "sizeof_MqdbHeader \<le> length bad_version_ff"
    by (simp_all add: bad_signature_ff_def bad_version_ff_def sizeof_MqdbHeader_def)
  have ts: "take 4 bad_signature_ff \<noteq> ''MQDB''"
    and tv: "take 4 bad_version_ff = ''MQDB''"
    and ver: "uint32_of_bytes (take 4 (drop 8 bad_version_ff)) \<noteq> 9"
    by (simp_all add: bad_signature_ff_def bad_version_ff_def)
  from header_rejected [of bad_fs "''signature.ff''" bad_signature_ff True, OF s ls]
    header_rejected [of bad_fs "''version.ff''" bad_version_ff True, OF v lv]
    s v ls lv ts tv ver
  show ?thesis by simp
qed
subsection \<open>C9: \<^verbatim>\<open>getNames\<close>\<close>

lemma ctor_recordNames_sorted:
  assumes "FfReader_ctor fs path readImageData = Returned r"
  shows "sorted_wrt (<) (map fst (recordNames r))"
proof -
  from ctor_stages [OF assms] obtain bytes file1 r1 file2 r2 file3 r3 file4 where
    s2: "readTableOfContents (FfReader_members path) file1 = Returned (r1, file2)"
    and s3: "readNameList r1 file2 = Returned (r2, file3)"
    and s4: "readIndex r2 file3 = Returned (r3, file4)"
    and s5: "if readImageData then \<exists>file5. readImages r3 file4 = Returned (r, file5)
             else r = r3"
    by blast
  from readTableOfContents_fields [OF s2] have "recordNames r1 = []"
    by (auto simp: FfReader_members_def)
  with readNameList_fields(1) [OF s3] have "sorted_wrt (<) (map fst (recordNames r2))"
    by auto
  moreover from readIndex_fields [OF s4] have "r3 = r2" .
  moreover from s5 have "recordNames r = recordNames r3"
    by (auto split: if_splits dest: readImages_fields)
  ultimately show ?thesis by simp
qed

text \<open>
  C9. On every decoder that the constructor returns, \<^verbatim>\<open>getNames\<close> gives the names
  of the name table, each once, in ascending order: the order of \<^verbatim>\<open>std::string\<close>,
  lexicographic over the bytes as unsigned values, whatever the order of the name list in
  the file.
\<close>

theorem getNames_sorted:
  assumes "FfReader_ctor fs path readImageData = Returned r"
  shows "sorted_wrt (<) (getNames r) \<and> distinct (getNames r)
         \<and> set (getNames r) = dom (map_of (recordNames r))"
  using ctor_recordNames_sorted [OF assms]
  by (simp add: getNames_def strict_sorted_iff dom_map_of_conv_image_fst)

theorem getNames_sorted_witness:
  "FfReader_ctor sample_fs ''sample.ff'' True
     = Returned (sample_reader\<lparr>packedImages := [(0, sample_image)]\<rparr>)
   \<and> getNames (sample_reader\<lparr>packedImages := [(0, sample_image)]\<rparr>)
       = [''-IMAGES.OPT'', ''-INDEX.OPT'', ''a'', ''b'']
   \<and> sorted_wrt (<) [''-IMAGES.OPT'', ''-INDEX.OPT'', ''a'', ''b'']"
proof -
  have g: "getNames (sample_reader\<lparr>packedImages := [(0, sample_image)]\<rparr>)
       = [''-IMAGES.OPT'', ''-INDEX.OPT'', ''a'', ''b'']"
    by (simp add: getNames_def sample_reader_def sample_names_def)
  from getNames_sorted [OF sample_ctor_True] sample_ctor_True g show ?thesis by simp
qed
subsection \<open>C10: the decode loop of \<^verbatim>\<open>readImages\<close> terminates\<close>

lemma readImages_fuel_enough:
  "(recordSize - byteOffset + 1038) div 1039 \<le> k \<Longrightarrow>
     readImages_fuel k contents recordSize byteOffset m
       = Some (readImages_loop contents recordSize byteOffset m)"
proof (induction k arbitrary: byteOffset m)
  case 0
  then have "recordSize - byteOffset + 1038 < 1039"
    by (simp add: div_eq_0_iff)
  then have "\<not> byteOffset < recordSize" by simp
  then show ?case by (simp add: readImages_loop.simps)
next
  case (Suc k)
  show ?case
  proof (cases "byteOffset < recordSize")
    case False
    then show ?thesis by (simp add: readImages_loop.simps)
  next
    case True
    show ?thesis
    proof (cases "readImages_image contents byteOffset")
      case (Returned x)
      obtain b' img where x: "x = (b', img)" by (cases x)
      from Returned x have img: "readImages_image contents byteOffset = Returned (b', img)"
        by simp
      from readImages_image_Returned(1) [OF img] have adv: "byteOffset + 1039 \<le> b'" .
      have "(recordSize - b' + 1038) div 1039 \<le> k"
      proof (cases "recordSize \<le> b'")
        case True
        then show ?thesis by simp
      next
        case False
        define x where "x = recordSize - b' + 1038"
        from False adv have "x + 1039 \<le> recordSize - byteOffset + 1038"
          by (simp add: x_def)
        then have "(x + 1039) div 1039 \<le> (recordSize - byteOffset + 1038) div 1039"
          by (rule div_le_mono)
        moreover have "(x + 1039) div 1039 = Suc (x div 1039)" by simp
        ultimately have "x div 1039 \<le> k" using Suc.prems by linarith
        then show ?thesis by (simp only: x_def)
      qed
      from Suc.IH [OF this] True img show ?thesis
        by (subst readImages_loop.simps) simp
    next
      case (Threw msg)
      with True show ?thesis by (subst readImages_loop.simps) simp
    next
      case Undefined
      with True show ?thesis by (subst readImages_loop.simps) simp
    qed
  qed
qed

text \<open>
  C10. Every iteration of the \<^verbatim>\<open>while\<close> loop of \<^verbatim>\<open>readImages\<close> that comes to
  its end has moved the byte offset forward by at least 1039 bytes (the 1035 bytes of the
  palette and the 4 bytes of the frame count), so the loop ends: \<open>readImages_loop\<close> is a
  total function, and its result is reached within
  \<open>(recordSize - byteOffset + 1038) div 1039\<close> iterations.
\<close>

theorem readImages_loop_terminates:
  "(readImages_image contents byteOffset = Returned (byteOffset', packedImage)
      \<longrightarrow> byteOffset + 1039 \<le> byteOffset')
   \<and> ((recordSize - byteOffset + 1038) div 1039 \<le> k
      \<longrightarrow> readImages_fuel k contents recordSize byteOffset m
            = Some (readImages_loop contents recordSize byteOffset m))"
  using readImages_image_Returned(1) readImages_fuel_enough by blast

theorem readImages_loop_terminates_witness:
  "readImages_image sample_images 0 = Returned (1077, sample_image)
   \<and> (0::nat) + 1039 \<le> 1077
   \<and> (1077 - 0 + 1038) div 1039 \<le> (2::nat)
   \<and> readImages_fuel 2 sample_images 1077 0 []
        = Some (readImages_loop sample_images 1077 0 [])"
proof -
  have img: "readImages_image sample_images 0 = Returned (1077, sample_image)"
    by (simp add: readImages_image_def sample_image_def eval_simps)
  have le: "(1077 - 0 + 1038) div 1039 \<le> (2::nat)" by simp
  from readImages_loop_terminates [of sample_images 0 1077 sample_image 1077 2 "[]"] img le
  show ?thesis by simp
qed

end
